theory Spec2Isabelle
  imports Main
begin

section \<open>Strings as Python sees them\<close>

text \<open>
  A Python \<open>str\<close> is modelled as a HOL \<open>string\<close> whose characters are the code points
  below 256, so that \<open>length\<close> is Python's \<open>len\<close>. The character classes below are
  those of \<open>str.isspace\<close>, \<open>str.isalnum\<close> and \<open>str.lower\<close> on that range.
\<close>

definition isspace :: "char \<Rightarrow> bool" where
  "isspace c = (let n = (of_char c :: nat) in
     (9 \<le> n \<and> n \<le> 13) \<or> (28 \<le> n \<and> n \<le> 32) \<or> n = 133 \<or> n = 160)"

definition isalnum_char :: "char \<Rightarrow> bool" where
  "isalnum_char c = (let n = (of_char c :: nat) in
     (48 \<le> n \<and> n \<le> 57) \<or> (65 \<le> n \<and> n \<le> 90) \<or> (97 \<le> n \<and> n \<le> 122) \<or>
     n = 170 \<or> n = 178 \<or> n = 179 \<or> n = 181 \<or> n = 185 \<or> n = 186 \<or>
     (188 \<le> n \<and> n \<le> 190) \<or> (192 \<le> n \<and> n \<le> 214) \<or> (216 \<le> n \<and> n \<le> 246) \<or>
     (248 \<le> n \<and> n \<le> 255))"

definition lower_char :: "char \<Rightarrow> char" where
  "lower_char c = (let n = (of_char c :: nat) in
     if (65 \<le> n \<and> n \<le> 90) \<or> (192 \<le> n \<and> n \<le> 222 \<and> n \<noteq> 215)
     then char_of (n + 32) else c)"

text \<open>\<open>value.strip()\<close>, \<open>value.lower()\<close>, \<open>value.isalnum()\<close> (false on the empty string).\<close>

definition strip :: "string \<Rightarrow> string" where
  "strip s = rev (dropWhile isspace (rev (dropWhile isspace s)))"

definition lower :: "string \<Rightarrow> string" where
  "lower s = map lower_char s"

definition isalnum :: "string \<Rightarrow> bool" where
  "isalnum s = (s \<noteq> [] \<and> list_all isalnum_char s)"

text \<open>\<open>needle in haystack\<close> on strings.\<close>

fun starts_with :: "string \<Rightarrow> string \<Rightarrow> bool" where
  "starts_with [] ys = True"
| "starts_with (x # xs) [] = False"
| "starts_with (x # xs) (y # ys) = (x = y \<and> starts_with xs ys)"

fun contains :: "string \<Rightarrow> string \<Rightarrow> bool" where
  "contains needle [] = (needle = [])"
| "contains needle (c # cs) = (starts_with needle (c # cs) \<or> contains needle cs)"

section \<open>Data model (models.py and the framework's User and Token)\<close>

type_synonym datetime = int

datatype status = Pending | Completed

record task =
  task_id :: nat
  task_user :: nat
  title :: string
  description :: "string option"
  status :: status
  due_date :: "datetime option"
  created_at :: datetime
  updated_at :: datetime

text \<open>
  \<open>django.contrib.auth.models.User\<close>. The password hash is abstracted: the record keeps
  the password and \<open>check_password\<close> is equality.
\<close>

record user =
  user_id :: nat
  username :: string
  email :: string
  password :: string
  first_name :: string
  last_name :: string
  is_active :: bool

text \<open>
  The database: the rows of the three tables and the two auto-increment counters.
  A token row is the pair of its user and its key (\<open>Token.user\<close> is one-to-one).
\<close>

record db =
  users :: "user list"
  tasks :: "task list"
  tokens :: "(nat \<times> string) list"
  next_user_id :: nat
  next_task_id :: nat

definition empty_db :: db where
  "empty_db = \<lparr>users = [], tasks = [], tokens = [], next_user_id = 1, next_task_id = 1\<rparr>"

text \<open>The error kinds of the specification; a validation failure lists them by field.\<close>

datatype error_kind =
  InvalidField | DuplicateEmail | WeakPassword | PasswordMismatch
  | InvalidCredentials | AccountDisabled

type_synonym errors = "(string \<times> error_kind) list"

datatype failure =
  NotAuthenticated | NotFound | NoActiveSession | InvalidToken | Invalid errors

text \<open>\<open>request.user\<close>: the anonymous user or an authenticated user, by primary key.\<close>

datatype request_user = AnonymousUser | AuthUser nat

section \<open>Task validation (serializers.py, models.py)\<close>

text \<open>
  The serializer field the framework derives from a \<open>CharField\<close>/\<open>TextField\<close> of the
  model: the input is trimmed (\<open>trim_whitespace\<close>), a blank value is refused unless
  \<open>allow_blank\<close>, then the length validators run.
\<close>

definition CharField :: "nat \<Rightarrow> nat option \<Rightarrow> bool \<Rightarrow> string \<Rightarrow> unit + string" where
  "CharField min_length max_length allow_blank data =
     (let v = strip data in
      if v = [] then (if allow_blank then Inr v else Inl ())
      else if (case max_length of Some m \<Rightarrow> m < length v | None \<Rightarrow> False) then Inl ()
      else if length v < min_length then Inl ()
      else Inr v)"

text \<open>\<open>TaskSerializer.validate_title\<close>.\<close>

definition validate_title :: "string \<Rightarrow> unit + string" where
  "validate_title v = (if strip v = [] then Inl () else Inr (strip v))"

text \<open>
  \<open>TaskSerializer.validate_due_date\<close>; \<open>has_instance\<close> is the truth of \<open>self.instance\<close>
  (set on update, \<open>None\<close> on create), and a datetime is always true.
\<close>

definition validate_due_date :: "datetime \<Rightarrow> bool \<Rightarrow> datetime option \<Rightarrow> unit + datetime option" where
  "validate_due_date now has_instance v =
     (case v of
        Some d \<Rightarrow> (if \<not> has_instance then (if d < now then Inl () else Inr v) else Inr v)
      | None \<Rightarrow> Inr v)"

text \<open>
  The request body of a task: every field may be absent (\<open>None\<close>); \<open>description\<close> and
  \<open>due_date\<close> may also be sent as null. The same record holds the validated data.
\<close>

record task_input =
  in_title :: "string option"
  in_description :: "string option option"
  in_status :: "status option"
  in_due_date :: "datetime option option"

definition field_title :: "bool \<Rightarrow> string option \<Rightarrow> errors + string option" where
  "field_title partial v =
     (case v of
        None \<Rightarrow> (if partial then Inr None else Inl [(''title'', InvalidField)])
      | Some raw \<Rightarrow>
          (case CharField 0 (Some 255) False raw of
             Inl _ \<Rightarrow> Inl [(''title'', InvalidField)]
           | Inr x \<Rightarrow>
               (case validate_title x of
                  Inl _ \<Rightarrow> Inl [(''title'', InvalidField)]
                | Inr y \<Rightarrow> Inr (Some y))))"

definition field_description :: "string option option \<Rightarrow> errors + string option option" where
  "field_description v =
     (case v of
        None \<Rightarrow> Inr None
      | Some None \<Rightarrow> Inr (Some None)
      | Some (Some raw) \<Rightarrow>
          (case CharField 0 None True raw of
             Inl _ \<Rightarrow> Inl [(''description'', InvalidField)]
           | Inr x \<Rightarrow> Inr (Some (Some x))))"

definition field_due_date ::
  "datetime \<Rightarrow> bool \<Rightarrow> datetime option option \<Rightarrow> errors + datetime option option" where
  "field_due_date now has_instance v =
     (case v of
        None \<Rightarrow> Inr None
      | Some d \<Rightarrow>
          (case validate_due_date now has_instance d of
             Inl _ \<Rightarrow> Inl [(''due_date'', InvalidField)]
           | Inr x \<Rightarrow> Inr (Some x)))"

definition errs_of :: "errors + 'a \<Rightarrow> errors" where
  "errs_of r = (case r of Inl es \<Rightarrow> es | Inr _ \<Rightarrow> [])"

text \<open>
  \<open>serializer.is_valid()\<close> of \<open>TaskSerializer\<close>: the writable fields in declared order
  (title, description, status, due_date), each through its field and then its
  \<open>validate_<field>\<close> method; the errors of all fields are collected.
\<close>

definition TaskSerializer_is_valid ::
  "datetime \<Rightarrow> bool \<Rightarrow> bool \<Rightarrow> task_input \<Rightarrow> errors + task_input" where
  "TaskSerializer_is_valid now has_instance partial inp =
     (let rt = field_title partial (in_title inp);
          rd = field_description (in_description inp);
          rdd = field_due_date now has_instance (in_due_date inp);
          es = errs_of rt @ errs_of rd @ errs_of rdd
      in case (rt, rd, rdd) of
           (Inr t, Inr d, Inr dd) \<Rightarrow>
             Inr \<lparr>in_title = t, in_description = d, in_status = in_status inp, in_due_date = dd\<rparr>
         | _ \<Rightarrow> Inl es)"

text \<open>
  \<open>Task.clean_fields\<close>, as the model's field declarations make it: \<open>title\<close> is not blank
  and has at most 255 characters. \<open>description\<close> and \<open>due_date\<close> may be empty, \<open>status\<close>
  is one of its choices by its type, and the owner is the authenticated user.
\<close>

definition Task_clean_fields :: "task \<Rightarrow> errors" where
  "Task_clean_fields t =
     (if title t = [] \<or> 255 < length (title t) then [(''title'', InvalidField)] else [])"

text \<open>
  \<open>Task.clean\<close>. \<open>pk\<close> is \<open>self.pk\<close>: \<open>None\<close> before the first save, and Python's
  \<open>not self.pk\<close> also holds of the key 0.
\<close>

definition not_pk :: "nat option \<Rightarrow> bool" where
  "not_pk pk = (case pk of None \<Rightarrow> True | Some n \<Rightarrow> n = 0)"

definition Task_clean :: "datetime \<Rightarrow> nat option \<Rightarrow> task \<Rightarrow> errors" where
  "Task_clean now pk t =
     (case due_date t of
        Some d \<Rightarrow>
          (if not_pk pk then (if d < now then [(''due_date'', InvalidField)] else []) else [])
      | None \<Rightarrow> [])"

definition Task_full_clean :: "datetime \<Rightarrow> nat option \<Rightarrow> task \<Rightarrow> errors" where
  "Task_full_clean now pk t = Task_clean_fields t @ Task_clean now pk t"

text \<open>
  \<open>Task.save\<close>: \<open>full_clean\<close>, then the row is written. A new row takes the next key and
  \<open>created_at\<close> (\<open>auto_now_add\<close>); every save sets \<open>updated_at\<close> (\<open>auto_now\<close>). An instance
  with a key came from the table, and its row is replaced.
\<close>

definition Task_save :: "datetime \<Rightarrow> nat option \<Rightarrow> task \<Rightarrow> db \<Rightarrow> failure + (task \<times> db)" where
  "Task_save now pk t s =
     (case Task_full_clean now pk t of
        e # es \<Rightarrow> Inl (Invalid (e # es))
      | [] \<Rightarrow>
          (case pk of
             None \<Rightarrow>
               (let t' = t\<lparr>task_id := next_task_id s, created_at := now, updated_at := now\<rparr>
                in Inr (t', s\<lparr>tasks := tasks s @ [t'], next_task_id := Suc (next_task_id s)\<rparr>))
           | Some i \<Rightarrow>
               (let t' = t\<lparr>updated_at := now\<rparr>
                in Inr (t', s\<lparr>tasks := map (\<lambda>x. if task_id x = i then t' else x) (tasks s)\<rparr>))))"

section \<open>Ordering of query sets\<close>

datatype ordering_field = CreatedAt | UpdatedAt | DueDate | Status

text \<open>
  Strict order of two rows on one field. \<open>status\<close> is compared as its text
  (\<open>completed\<close> before \<open>pending\<close>); a null \<open>due_date\<close> sorts first.
\<close>

fun field_lt :: "ordering_field \<Rightarrow> task \<Rightarrow> task \<Rightarrow> bool" where
  "field_lt CreatedAt a b = (created_at a < created_at b)"
| "field_lt UpdatedAt a b = (updated_at a < updated_at b)"
| "field_lt DueDate a b =
     (case (due_date a, due_date b) of
        (None, Some _) \<Rightarrow> True
      | (Some x, Some y) \<Rightarrow> x < y
      | _ \<Rightarrow> False)"
| "field_lt Status a b = (status a = Completed \<and> status b = Pending)"

text \<open>\<open>order_by\<close> on a list of fields, each ascending (\<open>False\<close>) or descending (\<open>True\<close>).\<close>

fun task_le :: "(ordering_field \<times> bool) list \<Rightarrow> task \<Rightarrow> task \<Rightarrow> bool" where
  "task_le [] a b = True"
| "task_le ((f, desc) # os) a b =
     (if field_lt f a b then \<not> desc
      else if field_lt f b a then desc
      else task_le os a b)"

fun insert_by :: "('a \<Rightarrow> 'a \<Rightarrow> bool) \<Rightarrow> 'a \<Rightarrow> 'a list \<Rightarrow> 'a list" where
  "insert_by le x [] = [x]"
| "insert_by le x (y # ys) = (if le y x then y # insert_by le x ys else x # y # ys)"

definition order_by :: "(ordering_field \<times> bool) list \<Rightarrow> task list \<Rightarrow> task list" where
  "order_by os ts = foldl (\<lambda>acc t. insert_by (task_le os) t acc) [] ts"

section \<open>Task views (views.py)\<close>

text \<open>\<open>Task.objects\<close>: all rows, in the model's default ordering \<open>-created_at\<close>.\<close>

definition Task_objects :: "db \<Rightarrow> task list" where
  "Task_objects s = order_by [(CreatedAt, True)] (tasks s)"

text \<open>\<open>TaskViewSet.get_queryset\<close>.\<close>

definition get_queryset :: "db \<Rightarrow> request_user \<Rightarrow> task list" where
  "get_queryset s ru =
     (case ru of
        AuthUser u \<Rightarrow> filter (\<lambda>t. task_user t = u) (Task_objects s)
      | AnonymousUser \<Rightarrow> [])"

text \<open>
  \<open>get_object\<close> of the generic view: the row of the query set with the primary key of the
  URL, or 404. A detail request carries no filter parameters.
\<close>

definition get_object :: "db \<Rightarrow> request_user \<Rightarrow> nat \<Rightarrow> failure + task" where
  "get_object s ru pk =
     (case find (\<lambda>t. task_id t = pk) (get_queryset s ru) of
        None \<Rightarrow> Inl NotFound
      | Some t \<Rightarrow> Inr t)"

text \<open>
  The query parameters of the list view: \<open>filterset_fields\<close> (equality on status and
  due_date), \<open>search_fields\<close> (every term occurs, ignoring case, in the title or the
  description) and \<open>ordering_fields\<close> (no valid term: the view's \<open>-created_at\<close>).
\<close>

record list_query =
  q_status :: "status option"
  q_due_date :: "datetime option"
  q_search :: "string list"
  q_ordering :: "(ordering_field \<times> bool) list"

definition icontains :: "string \<Rightarrow> string \<Rightarrow> bool" where
  "icontains term txt = contains (lower term) (lower txt)"

definition matches_search :: "string list \<Rightarrow> task \<Rightarrow> bool" where
  "matches_search terms t =
     list_all (\<lambda>term. icontains term (title t) \<or>
        (case description t of None \<Rightarrow> False | Some d \<Rightarrow> icontains term d)) terms"

definition matches_filter :: "list_query \<Rightarrow> task \<Rightarrow> bool" where
  "matches_filter q t =
     ((case q_status q of None \<Rightarrow> True | Some st \<Rightarrow> status t = st) \<and>
      (case q_due_date q of None \<Rightarrow> True | Some d \<Rightarrow> due_date t = Some d))"

definition filter_queryset :: "list_query \<Rightarrow> task list \<Rightarrow> task list" where
  "filter_queryset q ts =
     order_by (if q_ordering q = [] then [(CreatedAt, True)] else q_ordering q)
       (filter (matches_search (q_search q)) (filter (matches_filter q) ts))"

text \<open>\<open>permission_classes = [IsAuthenticated]\<close>.\<close>

definition is_authenticated :: "request_user \<Rightarrow> bool" where
  "is_authenticated ru = (case ru of AuthUser _ \<Rightarrow> True | AnonymousUser \<Rightarrow> False)"

text \<open>The list view and the actions \<open>pending\<close>, \<open>completed\<close>, \<open>overdue\<close>.\<close>

definition list_tasks :: "db \<Rightarrow> request_user \<Rightarrow> list_query \<Rightarrow> failure + task list" where
  "list_tasks s ru q =
     (if \<not> is_authenticated ru then Inl NotAuthenticated
      else Inr (filter_queryset q (get_queryset s ru)))"

definition list_pending :: "db \<Rightarrow> request_user \<Rightarrow> failure + task list" where
  "list_pending s ru =
     (if \<not> is_authenticated ru then Inl NotAuthenticated
      else Inr (filter (\<lambda>t. status t = Pending) (get_queryset s ru)))"

definition list_completed :: "db \<Rightarrow> request_user \<Rightarrow> failure + task list" where
  "list_completed s ru =
     (if \<not> is_authenticated ru then Inl NotAuthenticated
      else Inr (filter (\<lambda>t. status t = Completed) (get_queryset s ru)))"

definition list_overdue :: "db \<Rightarrow> datetime \<Rightarrow> request_user \<Rightarrow> failure + task list" where
  "list_overdue s now ru =
     (if \<not> is_authenticated ru then Inl NotAuthenticated
      else Inr (filter (\<lambda>t. (case due_date t of None \<Rightarrow> False | Some d \<Rightarrow> d < now) \<and>
                              status t = Pending) (get_queryset s ru)))"

text \<open>\<open>retrieve\<close> of the generic view.\<close>

definition retrieve :: "db \<Rightarrow> request_user \<Rightarrow> nat \<Rightarrow> failure + task" where
  "retrieve s ru pk =
     (if \<not> is_authenticated ru then Inl NotAuthenticated else get_object s ru pk)"

text \<open>
  \<open>create\<close> with \<open>perform_create\<close>: the validated data and the caller as owner make the
  new instance, with the model's defaults for what the request left out.
\<close>

definition create_task ::
  "db \<Rightarrow> datetime \<Rightarrow> request_user \<Rightarrow> task_input \<Rightarrow> failure + (task \<times> db)" where
  "create_task s now ru inp =
     (case ru of
        AnonymousUser \<Rightarrow> Inl NotAuthenticated
      | AuthUser u \<Rightarrow>
          (case TaskSerializer_is_valid now False False inp of
             Inl es \<Rightarrow> Inl (Invalid es)
           | Inr v \<Rightarrow>
               Task_save now None
                 \<lparr>task_id = 0, task_user = u,
                  title = (case in_title v of None \<Rightarrow> [] | Some t \<Rightarrow> t),
                  description = (case in_description v of None \<Rightarrow> None | Some d \<Rightarrow> d),
                  status = (case in_status v of None \<Rightarrow> Pending | Some st \<Rightarrow> st),
                  due_date = (case in_due_date v of None \<Rightarrow> None | Some d \<Rightarrow> d),
                  created_at = 0, updated_at = 0\<rparr> s))"

text \<open>
  \<open>update\<close> and \<open>partial_update\<close> with \<open>perform_update\<close>: the object is looked up first,
  then the serializer validates against it and sets the fields the request holds.
\<close>

definition update_task ::
  "db \<Rightarrow> datetime \<Rightarrow> request_user \<Rightarrow> nat \<Rightarrow> bool \<Rightarrow> task_input \<Rightarrow> failure + (task \<times> db)" where
  "update_task s now ru pk partial inp =
     (case ru of
        AnonymousUser \<Rightarrow> Inl NotAuthenticated
      | AuthUser u \<Rightarrow>
          (case get_object s ru pk of
             Inl e \<Rightarrow> Inl e
           | Inr t \<Rightarrow>
               (case TaskSerializer_is_valid now True partial inp of
                  Inl es \<Rightarrow> Inl (Invalid es)
                | Inr v \<Rightarrow>
                    Task_save now (Some (task_id t))
                      (t\<lparr>task_user := u,
                         title := (case in_title v of None \<Rightarrow> title t | Some x \<Rightarrow> x),
                         description :=
                           (case in_description v of None \<Rightarrow> description t | Some d \<Rightarrow> d),
                         status := (case in_status v of None \<Rightarrow> status t | Some st \<Rightarrow> st),
                         due_date := (case in_due_date v of None \<Rightarrow> due_date t | Some d \<Rightarrow> d)\<rparr>)
                      s)))"

text \<open>\<open>TaskViewSet.complete\<close>.\<close>

definition complete_task ::
  "db \<Rightarrow> datetime \<Rightarrow> request_user \<Rightarrow> nat \<Rightarrow> failure + (task \<times> db)" where
  "complete_task s now ru pk =
     (if \<not> is_authenticated ru then Inl NotAuthenticated
      else case get_object s ru pk of
             Inl e \<Rightarrow> Inl e
           | Inr t \<Rightarrow> Task_save now (Some (task_id t)) (t\<lparr>status := Completed\<rparr>) s)"

text \<open>\<open>TaskViewSet.destroy\<close>.\<close>

definition delete_task :: "db \<Rightarrow> request_user \<Rightarrow> nat \<Rightarrow> failure + db" where
  "delete_task s ru pk =
     (if \<not> is_authenticated ru then Inl NotAuthenticated
      else case get_object s ru pk of
             Inl e \<Rightarrow> Inl e
           | Inr t \<Rightarrow> Inr (s\<lparr>tasks := filter (\<lambda>x. task_id x \<noteq> task_id t) (tasks s)\<rparr>))"

section \<open>Registration (serializers.py, views.py)\<close>

record registration =
  reg_username :: string
  reg_email :: string
  reg_password :: string
  reg_password_confirm :: string
  reg_first_name :: "string option"
  reg_last_name :: "string option"

text \<open>
  The validator of the model's \<open>username\<close> field: one or more word characters
  or \<open>. @ + -\<close>.
\<close>

definition username_validator :: "string \<Rightarrow> bool" where
  "username_validator v =
     (v \<noteq> [] \<and> list_all (\<lambda>c. isalnum_char c \<or> c = CHR ''_'' \<or> c \<in> set ''.@+-'') v)"

text \<open>\<open>UserSerializer.validate_username\<close>.\<close>

definition validate_username :: "string \<Rightarrow> unit + string" where
  "validate_username v =
     (if \<not> isalnum v \<and> CHR ''_'' \<notin> set v then Inl () else Inr v)"

text \<open>\<open>UserSerializer.validate_email\<close>; \<open>filter(email=value)\<close> is an exact match.\<close>

definition validate_email :: "db \<Rightarrow> string \<Rightarrow> unit + string" where
  "validate_email s v =
     (if list_ex (\<lambda>u. email u = v) (users s) then Inl () else Inr (lower v))"

text \<open>
  The username field of the model serializer: at most 150 characters, the model's
  validator, no other row with that username; then \<open>validate_username\<close>.
\<close>

definition field_username :: "db \<Rightarrow> string \<Rightarrow> errors + string" where
  "field_username s raw =
     (case CharField 0 (Some 150) False raw of
        Inl _ \<Rightarrow> Inl [(''username'', InvalidField)]
      | Inr x \<Rightarrow>
          (if \<not> username_validator x \<or> list_ex (\<lambda>u. username u = x) (users s)
           then Inl [(''username'', InvalidField)]
           else case validate_username x of
                  Inl _ \<Rightarrow> Inl [(''username'', InvalidField)]
                | Inr y \<Rightarrow> Inr y))"

text \<open>
  The declared \<open>EmailField\<close>, then \<open>validate_email\<close>. The framework's test of the
  address format is the parameter \<open>fmt\<close>.
\<close>

definition field_email :: "(string \<Rightarrow> bool) \<Rightarrow> db \<Rightarrow> string \<Rightarrow> errors + string" where
  "field_email fmt s raw =
     (case CharField 0 None False raw of
        Inl _ \<Rightarrow> Inl [(''email'', InvalidField)]
      | Inr x \<Rightarrow>
          (if \<not> fmt x then Inl [(''email'', InvalidField)]
           else case validate_email s x of
                  Inl _ \<Rightarrow> Inl [(''email'', DuplicateEmail)]
                | Inr y \<Rightarrow> Inr y))"

text \<open>The declared \<open>password\<close> (\<open>min_length=8\<close>) and \<open>password_confirm\<close> fields.\<close>

definition field_password :: "string \<Rightarrow> errors + string" where
  "field_password raw =
     (case CharField 8 None False raw of
        Inl _ \<Rightarrow> Inl [(''password'', WeakPassword)]
      | Inr x \<Rightarrow> Inr x)"

definition field_password_confirm :: "string \<Rightarrow> errors + string" where
  "field_password_confirm raw =
     (case CharField 0 None False raw of
        Inl _ \<Rightarrow> Inl [(''password_confirm'', InvalidField)]
      | Inr x \<Rightarrow> Inr x)"

text \<open>\<open>first_name\<close> and \<open>last_name\<close>: optional, may be blank, at most 150 characters.\<close>

definition field_name :: "string \<Rightarrow> string option \<Rightarrow> errors + string option" where
  "field_name fname v =
     (case v of
        None \<Rightarrow> Inr None
      | Some raw \<Rightarrow>
          (case CharField 0 (Some 150) True raw of
             Inl _ \<Rightarrow> Inl [(fname, InvalidField)]
           | Inr x \<Rightarrow> Inr (Some x)))"

text \<open>\<open>UserSerializer.validate\<close>: the passwords match.\<close>

definition validate_registration :: "registration \<Rightarrow> errors + registration" where
  "validate_registration data =
     (if reg_password data \<noteq> reg_password_confirm data
      then Inl [(''password_confirm'', PasswordMismatch)] else Inr data)"

text \<open>
  \<open>serializer.is_valid()\<close> of \<open>UserSerializer\<close>: the fields in declared order with
  their errors collected and, when no field failed, \<open>validate\<close>.
\<close>

definition UserSerializer_is_valid ::
  "(string \<Rightarrow> bool) \<Rightarrow> db \<Rightarrow> registration \<Rightarrow> errors + registration" where
  "UserSerializer_is_valid fmt s inp =
     (let ru = field_username s (reg_username inp);
          re = field_email fmt s (reg_email inp);
          rp = field_password (reg_password inp);
          rc = field_password_confirm (reg_password_confirm inp);
          rf = field_name ''first_name'' (reg_first_name inp);
          rl = field_name ''last_name'' (reg_last_name inp);
          es = errs_of ru @ errs_of re @ errs_of rp @ errs_of rc @ errs_of rf @ errs_of rl
      in case (ru, re, rp, rc, rf, rl) of
           (Inr u, Inr e, Inr p, Inr c, Inr f, Inr l) \<Rightarrow>
             validate_registration
               \<lparr>reg_username = u, reg_email = e, reg_password = p, reg_password_confirm = c,
                reg_first_name = f, reg_last_name = l\<rparr>
         | _ \<Rightarrow> Inl es)"

text \<open>
  \<open>normalize_email\<close> of \<open>create_user\<close>: the part after the last \<open>@\<close> in lower case.
\<close>

definition normalize_email :: "string \<Rightarrow> string" where
  "normalize_email e =
     (let r = rev e;
          dom = takeWhile (\<lambda>c. c \<noteq> CHR ''@'') r;
          rest = dropWhile (\<lambda>c. c \<noteq> CHR ''@'') r
      in case rest of
           [] \<Rightarrow> e
         | _ # name \<Rightarrow> rev name @ ''@'' @ lower (rev dom))"

text \<open>
  \<open>Token.objects.get_or_create(user=user)\<close>; \<open>key\<close> is the random key a new token
  would get.
\<close>

definition get_or_create :: "db \<Rightarrow> nat \<Rightarrow> string \<Rightarrow> string \<times> db" where
  "get_or_create s uid key =
     (case map_of (tokens s) uid of
        Some k \<Rightarrow> (k, s)
      | None \<Rightarrow> (key, s\<lparr>tokens := tokens s @ [(uid, key)]\<rparr>))"

text \<open>
  \<open>UserSerializer.create\<close>: \<open>create_user\<close> and \<open>Token.objects.create\<close>. The
  normalisation of the username is the identity on the characters modelled.
\<close>

definition UserSerializer_create :: "db \<Rightarrow> string \<Rightarrow> registration \<Rightarrow> user \<times> db" where
  "UserSerializer_create s key v =
     (let u = \<lparr>user_id = next_user_id s,
               username = reg_username v,
               email = normalize_email (reg_email v),
               password = reg_password v,
               first_name = (case reg_first_name v of None \<Rightarrow> [] | Some x \<Rightarrow> x),
               last_name = (case reg_last_name v of None \<Rightarrow> [] | Some x \<Rightarrow> x),
               is_active = True\<rparr>
      in (u, s\<lparr>users := users s @ [u],
               tokens := tokens s @ [(user_id u, key)],
               next_user_id := Suc (next_user_id s)\<rparr>))"

text \<open>\<open>UserRegistrationView.post\<close>: the user, the token and the new state.\<close>

definition register ::
  "(string \<Rightarrow> bool) \<Rightarrow> db \<Rightarrow> string \<Rightarrow> registration \<Rightarrow> failure + (user \<times> string \<times> db)" where
  "register fmt s key inp =
     (case UserSerializer_is_valid fmt s inp of
        Inl es \<Rightarrow> Inl (Invalid es)
      | Inr v \<Rightarrow>
          (let (u, s1) = UserSerializer_create s key v;
               (k, s2) = get_or_create s1 (user_id u) key
           in Inr (u, k, s2)))"

section \<open>Login and logout (serializers.py, views.py)\<close>

text \<open>
  \<open>authenticate\<close> with the framework's model backend: the user of that name, when the
  password matches and the account is active.
\<close>

definition authenticate :: "db \<Rightarrow> string \<Rightarrow> string \<Rightarrow> user option" where
  "authenticate s uname pw =
     (case find (\<lambda>u. username u = uname) (users s) of
        None \<Rightarrow> None
      | Some u \<Rightarrow> (if password u = pw \<and> is_active u then Some u else None))"

text \<open>\<open>AuthTokenSerializer\<close>: two required text fields, then \<open>validate\<close>.\<close>

definition AuthTokenSerializer_is_valid :: "db \<Rightarrow> string \<Rightarrow> string \<Rightarrow> errors + user" where
  "AuthTokenSerializer_is_valid s uname pw =
     (let ru = (case CharField 0 None False uname of
                  Inl _ \<Rightarrow> Inl [(''username'', InvalidField)] | Inr x \<Rightarrow> Inr x);
          rp = (case CharField 0 None False pw of
                  Inl _ \<Rightarrow> Inl [(''password'', InvalidField)] | Inr x \<Rightarrow> Inr x)
      in case (ru, rp) of
           (Inr u, Inr p) \<Rightarrow>
             (if u \<noteq> [] \<and> p \<noteq> [] then
                (case authenticate s u p of
                   None \<Rightarrow> Inl [(''non_field_errors'', InvalidCredentials)]
                 | Some usr \<Rightarrow>
                     (if \<not> is_active usr then Inl [(''non_field_errors'', AccountDisabled)]
                      else Inr usr))
              else Inl [(''non_field_errors'', InvalidField)])
         | _ \<Rightarrow> Inl (errs_of ru @ errs_of rp))"

text \<open>\<open>UserLoginView.post\<close>.\<close>

definition login :: "db \<Rightarrow> string \<Rightarrow> string \<Rightarrow> string \<Rightarrow> failure + (user \<times> string \<times> db)" where
  "login s key uname pw =
     (case AuthTokenSerializer_is_valid s uname pw of
        Inl es \<Rightarrow> Inl (Invalid es)
      | Inr u \<Rightarrow> (let (k, s1) = get_or_create s (user_id u) key in Inr (u, k, s1)))"

text \<open>
  \<open>UserLogoutView.post\<close>: \<open>request.user.auth_token\<close> raises when the user has no
  token, and the handler answers with the error; otherwise the user's token row is deleted.
\<close>

definition logout :: "db \<Rightarrow> request_user \<Rightarrow> failure + db" where
  "logout s ru =
     (case ru of
        AnonymousUser \<Rightarrow> Inl NotAuthenticated
      | AuthUser u \<Rightarrow>
          (case map_of (tokens s) u of
             None \<Rightarrow> Inl NoActiveSession
           | Some k \<Rightarrow> Inr (s\<lparr>tokens := filter (\<lambda>r. fst r \<noteq> u) (tokens s)\<rparr>)))"

section \<open>Deleting a user\<close>

text \<open>
  \<open>User.delete()\<close> of the framework, with the cascade that \<open>on_delete=models.CASCADE\<close>
  declares on \<open>Task.user\<close> (and the framework on \<open>Token.user\<close>).
\<close>

definition delete_user :: "db \<Rightarrow> nat \<Rightarrow> db" where
  "delete_user s uid =
     s\<lparr>users := filter (\<lambda>u. user_id u \<noteq> uid) (users s),
       tasks := filter (\<lambda>t. task_user t \<noteq> uid) (tasks s),
       tokens := filter (\<lambda>r. fst r \<noteq> uid) (tokens s)\<rparr>"

section \<open>Requests and reachable states\<close>

datatype request =
  Register string registration
  | Login string string string
  | Logout request_user
  | CreateTask datetime request_user task_input
  | UpdateTask datetime request_user nat bool task_input
  | CompleteTask datetime request_user nat
  | DeleteTask request_user nat
  | DeleteUser nat

text \<open>
  The state after a request; a request that fails leaves the state as it was. \<open>fmt\<close> is
  the framework's test of the address format, as in \<open>field_email\<close>.
\<close>

fun step :: "(string \<Rightarrow> bool) \<Rightarrow> db \<Rightarrow> request \<Rightarrow> db" where
  "step fmt s (Register key inp) =
     (case register fmt s key inp of Inl _ \<Rightarrow> s | Inr (_, _, s') \<Rightarrow> s')"
| "step fmt s (Login key uname pw) =
     (case login s key uname pw of Inl _ \<Rightarrow> s | Inr (_, _, s') \<Rightarrow> s')"
| "step fmt s (Logout ru) = (case logout s ru of Inl _ \<Rightarrow> s | Inr s' \<Rightarrow> s')"
| "step fmt s (CreateTask now ru inp) =
     (case create_task s now ru inp of Inl _ \<Rightarrow> s | Inr (_, s') \<Rightarrow> s')"
| "step fmt s (UpdateTask now ru pk partial inp) =
     (case update_task s now ru pk partial inp of Inl _ \<Rightarrow> s | Inr (_, s') \<Rightarrow> s')"
| "step fmt s (CompleteTask now ru pk) =
     (case complete_task s now ru pk of Inl _ \<Rightarrow> s | Inr (_, s') \<Rightarrow> s')"
| "step fmt s (DeleteTask ru pk) = (case delete_task s ru pk of Inl _ \<Rightarrow> s | Inr s' \<Rightarrow> s')"
| "step fmt s (DeleteUser uid) = delete_user s uid"

text \<open>
  The invariant of the task table: primary keys are unique, positive (the counter starts
  at 1) and below the counter.
\<close>

definition wf_db :: "db \<Rightarrow> bool" where
  "wf_db s =
     (0 < next_task_id s \<and> distinct (map task_id (tasks s)) \<and>
      list_all (\<lambda>t. 0 < task_id t \<and> task_id t < next_task_id s) (tasks s))"

text \<open>A result that is a validation failure with \<open>InvalidField\<close> on field \<open>f\<close>.\<close>

definition invalid_field :: "failure + 'a \<Rightarrow> string \<Rightarrow> bool" where
  "invalid_field r f =
     (case r of Inl (Invalid es) \<Rightarrow> (f, InvalidField) \<in> set es | _ \<Rightarrow> False)"

section \<open>Example states\<close>

definition ex_task :: "nat \<Rightarrow> nat \<Rightarrow> task" where
  "ex_task i u =
     \<lparr>task_id = i, task_user = u, title = ''Buy milk'', description = None,
      status = Pending, due_date = Some 5, created_at = 1, updated_at = 1\<rparr>"

definition ex_db :: db where
  "ex_db =
     \<lparr>users = [], tasks = [ex_task 1 1, ex_task 2 2], tokens = [(1, ''k1'')],
      next_user_id = 3, next_task_id = 3\<rparr>"

definition ex_query :: list_query where
  "ex_query = \<lparr>q_status = None, q_due_date = None, q_search = [], q_ordering = []\<rparr>"

definition ex_input :: task_input where
  "ex_input =
     \<lparr>in_title = Some '' Buy milk '', in_description = None, in_status = None,
      in_due_date = Some (Some 20)\<rparr>"

definition ws_input :: task_input where
  "ws_input =
     \<lparr>in_title = Some ''  '', in_description = None, in_status = None, in_due_date = None\<rparr>"

definition long_input :: task_input where
  "long_input =
     \<lparr>in_title = Some (replicate 256 CHR ''a''), in_description = None, in_status = None,
      in_due_date = None\<rparr>"

definition past_input :: task_input where
  "past_input =
     \<lparr>in_title = Some ''Buy milk'', in_description = None, in_status = None,
      in_due_date = Some (Some 5)\<rparr>"

definition ex_created :: task where
  "ex_created =
     \<lparr>task_id = 3, task_user = 1, title = ''Buy milk'', description = None,
      status = Pending, due_date = Some 20, created_at = 10, updated_at = 10\<rparr>"

definition ex_db_created :: db where
  "ex_db_created = ex_db\<lparr>tasks := tasks ex_db @ [ex_created], next_task_id := 4\<rparr>"

definition ex_updated :: task where
  "ex_updated =
     \<lparr>task_id = 1, task_user = 1, title = ''Buy milk'', description = None,
      status = Pending, due_date = Some 5, created_at = 1, updated_at = 10\<rparr>"

text \<open>A stand-in for the framework's test of the address format.\<close>

definition has_at :: "string \<Rightarrow> bool" where
  "has_at e = (CHR ''@'' \<in> set e)"

definition ex_alice :: user where
  "ex_alice =
     \<lparr>user_id = 1, username = ''alice'', email = ''alice@x.com'', password = ''secret123'',
      first_name = [], last_name = [], is_active = True\<rparr>"

definition ex_auth_db :: db where
  "ex_auth_db =
     \<lparr>users = [ex_alice], tasks = [], tokens = [], next_user_id = 2, next_task_id = 1\<rparr>"

definition ex_auth_db1 :: db where
  "ex_auth_db1 = ex_auth_db\<lparr>tokens := [(1, ''k1'')]\<rparr>"

definition ex_requests :: "request list" where
  "ex_requests = [CompleteTask 11 (AuthUser 1) 1, Logout (AuthUser 1)]"

definition reg_alice :: registration where
  "reg_alice =
     \<lparr>reg_username = ''alice'', reg_email = ''alice@x.com'', reg_password = ''secret123'',
      reg_password_confirm = ''secret123'', reg_first_name = None, reg_last_name = None\<rparr>"

definition reg_alice2 :: registration where
  "reg_alice2 =
     \<lparr>reg_username = ''alice2'', reg_email = ''Alice@x.com'', reg_password = ''secret456'',
      reg_password_confirm = ''secret456'', reg_first_name = None, reg_last_name = None\<rparr>"

definition ex_alice2 :: user where
  "ex_alice2 =
     \<lparr>user_id = 2, username = ''alice2'', email = ''alice@x.com'', password = ''secret456'',
      first_name = [], last_name = [], is_active = True\<rparr>"

definition ex_auth_db2 :: db where
  "ex_auth_db2 =
     \<lparr>users = [ex_alice, ex_alice2], tasks = [], tokens = [(1, ''k1''), (2, ''k2'')],
      next_user_id = 3, next_task_id = 1\<rparr>"

definition reg_bob :: registration where
  "reg_bob =
     \<lparr>reg_username = ''bob_@home'', reg_email = ''bob@example.com'',
      reg_password = ''secret789'', reg_password_confirm = ''secret789'',
      reg_first_name = None, reg_last_name = None\<rparr>"

definition ex_bob :: user where
  "ex_bob =
     \<lparr>user_id = 1, username = ''bob_@home'', email = ''bob@example.com'',
      password = ''secret789'', first_name = [], last_name = [], is_active = True\<rparr>"

definition ex_bob_db :: db where
  "ex_bob_db =
     \<lparr>users = [ex_bob], tasks = [], tokens = [(1, ''k1'')], next_user_id = 2,
      next_task_id = 1\<rparr>"

section \<open>Query sets\<close>

lemma set_insert_by: "set (insert_by le x ys) = insert x (set ys)"
  by (induction ys) auto

lemma set_foldl_insert_by:
  "set (foldl (\<lambda>acc t. insert_by le t acc) acc ts) = set acc \<union> set ts"
  by (induction ts arbitrary: acc) (auto simp: set_insert_by)

lemma set_order_by: "set (order_by os ts) = set ts"
  by (simp add: order_by_def set_foldl_insert_by)

lemma set_get_queryset:
  "set (get_queryset s (AuthUser u)) = {t \<in> set (tasks s). task_user t = u}"
  by (auto simp: get_queryset_def Task_objects_def set_order_by)

lemma set_filter_queryset: "set (filter_queryset q ts) \<subseteq> set ts"
  by (auto simp: filter_queryset_def set_order_by)

lemma get_object_NotFound:
  "\<not> (\<exists>t \<in> set (tasks s). task_id t = pk \<and> task_user t = u)
   \<Longrightarrow> get_object s (AuthUser u) pk = Inl NotFound"
  by (auto simp: get_object_def find_None_iff set_get_queryset split: option.splits)

lemma wf_db_unique:
  "wf_db s \<Longrightarrow> t \<in> set (tasks s) \<Longrightarrow> t' \<in> set (tasks s) \<Longrightarrow> task_id t = task_id t'
   \<Longrightarrow> t = t'"
  by (auto simp: wf_db_def distinct_map inj_on_def)

lemma get_object_found:
  assumes "wf_db s" "t \<in> set (tasks s)" "task_user t = u"
  shows "get_object s (AuthUser u) (task_id t) = Inr t"
proof (cases "find (\<lambda>x. task_id x = task_id t) (get_queryset s (AuthUser u))")
  case None
  with assms show ?thesis
    by (auto simp: find_None_iff set_get_queryset)
next
  case (Some x)
  then have "x \<in> set (get_queryset s (AuthUser u))" "task_id x = task_id t"
    by (auto simp: find_Some_iff)
  then have "x = t"
    using assms wf_db_unique[of s x t] by (auto simp: set_get_queryset)
  with Some show ?thesis by (simp add: get_object_def)
qed

lemma get_object_other_user:
  assumes "wf_db s" "t \<in> set (tasks s)" "task_user t \<noteq> u"
  shows "get_object s (AuthUser u) (task_id t) = Inl NotFound"
  using assms wf_db_unique[of s _ t] by (intro get_object_NotFound) auto

lemma find_Some_set: "find P xs = Some x \<Longrightarrow> P x \<and> x \<in> set xs"
  by (induction xs) (auto split: if_splits)

lemma get_object_Inr:
  assumes "get_object s ru pk = Inr t"
  shows "t \<in> set (tasks s) \<and> task_id t = pk \<and> ru = AuthUser (task_user t)"
proof (cases ru)
  case AnonymousUser
  with assms show ?thesis
    by (simp add: get_object_def get_queryset_def)
next
  case (AuthUser u)
  with assms have "find (\<lambda>x. task_id x = pk) (get_queryset s (AuthUser u)) = Some t"
    by (simp add: get_object_def split: option.splits)
  from find_Some_set[OF this] AuthUser show ?thesis
    by (simp add: set_get_queryset)
qed

lemma wf_ex_db: "wf_db ex_db"
  by (simp add: wf_db_def ex_db_def ex_task_def)

section \<open>Ownership scoping\<close>

text \<open>
  C1. In a state whose primary keys are unique, a task owned by user \<open>u1\<close> is in none of
  the lists of another user \<open>u2\<close> (the list view under any query, pending, completed,
  overdue at any time), and \<open>u2\<close>'s retrieve, update, complete and delete on its key fail
  with \<open>NotFound\<close>; the failing requests leave the state, and so the task, as it was.
\<close>

theorem other_users_task_not_found:
  assumes "wf_db s" and "t \<in> set (tasks s)" and "task_user t = u1" and "u1 \<noteq> u2"
  shows "(\<exists>ts. list_tasks s (AuthUser u2) q = Inr ts \<and> t \<notin> set ts) \<and>
         (\<exists>ts. list_pending s (AuthUser u2) = Inr ts \<and> t \<notin> set ts) \<and>
         (\<exists>ts. list_completed s (AuthUser u2) = Inr ts \<and> t \<notin> set ts) \<and>
         (\<exists>ts. list_overdue s now (AuthUser u2) = Inr ts \<and> t \<notin> set ts) \<and>
         retrieve s (AuthUser u2) (task_id t) = Inl NotFound \<and>
         update_task s now (AuthUser u2) (task_id t) partial inp = Inl NotFound \<and>
         complete_task s now (AuthUser u2) (task_id t) = Inl NotFound \<and>
         delete_task s (AuthUser u2) (task_id t) = Inl NotFound \<and>
         step fmt s (UpdateTask now (AuthUser u2) (task_id t) partial inp) = s \<and>
         step fmt s (CompleteTask now (AuthUser u2) (task_id t)) = s \<and>
         step fmt s (DeleteTask (AuthUser u2) (task_id t)) = s"
proof -
  have nf: "get_object s (AuthUser u2) (task_id t) = Inl NotFound"
    using assms by (intro get_object_other_user) auto
  have notin: "t \<notin> set (get_queryset s (AuthUser u2))"
    using assms by (simp add: set_get_queryset)
  have l1: "\<exists>ts. list_tasks s (AuthUser u2) q = Inr ts \<and> t \<notin> set ts"
    using notin set_filter_queryset[of q "get_queryset s (AuthUser u2)"]
    by (auto simp: list_tasks_def is_authenticated_def)
  have l2: "\<exists>ts. list_pending s (AuthUser u2) = Inr ts \<and> t \<notin> set ts"
    using notin by (simp add: list_pending_def is_authenticated_def)
  have l3: "\<exists>ts. list_completed s (AuthUser u2) = Inr ts \<and> t \<notin> set ts"
    using notin by (simp add: list_completed_def is_authenticated_def)
  have l4: "\<exists>ts. list_overdue s now (AuthUser u2) = Inr ts \<and> t \<notin> set ts"
    using notin by (simp add: list_overdue_def is_authenticated_def)
  have r: "retrieve s (AuthUser u2) (task_id t) = Inl NotFound"
    by (simp add: retrieve_def is_authenticated_def nf)
  have u: "update_task s now (AuthUser u2) (task_id t) partial inp = Inl NotFound"
    by (simp add: update_task_def nf)
  have c: "complete_task s now (AuthUser u2) (task_id t) = Inl NotFound"
    by (simp add: complete_task_def is_authenticated_def nf)
  have d: "delete_task s (AuthUser u2) (task_id t) = Inl NotFound"
    by (simp add: delete_task_def is_authenticated_def nf)
  show ?thesis
    using l1 l2 l3 l4 r u c d by simp
qed

theorem other_users_task_not_found_witness:
  "wf_db ex_db \<and> ex_task 1 1 \<in> set (tasks ex_db) \<and> task_user (ex_task 1 1) = 1 \<and>
   (\<exists>ts. list_tasks ex_db (AuthUser 2) ex_query = Inr ts \<and> ex_task 1 1 \<notin> set ts) \<and>
   (\<exists>ts. list_pending ex_db (AuthUser 2) = Inr ts \<and> ex_task 1 1 \<notin> set ts) \<and>
   (\<exists>ts. list_completed ex_db (AuthUser 2) = Inr ts \<and> ex_task 1 1 \<notin> set ts) \<and>
   (\<exists>ts. list_overdue ex_db 10 (AuthUser 2) = Inr ts \<and> ex_task 1 1 \<notin> set ts) \<and>
   retrieve ex_db (AuthUser 2) 1 = Inl NotFound \<and>
   update_task ex_db 10 (AuthUser 2) 1 False ex_input = Inl NotFound \<and>
   complete_task ex_db 10 (AuthUser 2) 1 = Inl NotFound \<and>
   delete_task ex_db (AuthUser 2) 1 = Inl NotFound \<and>
   step (\<lambda>e. True) ex_db (UpdateTask 10 (AuthUser 2) 1 False ex_input) = ex_db \<and>
   step (\<lambda>e. True) ex_db (CompleteTask 10 (AuthUser 2) 1) = ex_db \<and>
   step (\<lambda>e. True) ex_db (DeleteTask (AuthUser 2) 1) = ex_db"
proof -
  have h2: "ex_task 1 1 \<in> set (tasks ex_db)"
    by (simp add: ex_db_def)
  have h3: "task_user (ex_task 1 1) = 1"
    by (simp add: ex_task_def)
  have h4: "(1::nat) \<noteq> 2"
    by simp
  have i: "task_id (ex_task 1 1) = 1"
    by (simp add: ex_task_def)
  note th = other_users_task_not_found
      [OF wf_ex_db h2 h3 h4, of ex_query 10 False ex_input "\<lambda>e. True", unfolded i]
  from wf_ex_db h2 h3 th show ?thesis
    by blast
qed

section \<open>Trimming\<close>

lemma dropWhile_all_dropped:
  "(\<forall>x \<in> set (dropWhile P xs). P x) \<longleftrightarrow> (\<forall>x \<in> set xs. P x)"
  by (induction xs) auto

lemma strip_Nil_iff: "strip s = [] \<longleftrightarrow> (\<forall>c \<in> set s. isspace c)"
  by (simp add: strip_def dropWhile_all_dropped)

lemma dropWhile_idem_hd: "xs \<noteq> [] \<Longrightarrow> \<not> P (hd xs) \<Longrightarrow> dropWhile P xs = xs"
  by (cases xs) auto

lemma strip_ends:
  assumes "strip s \<noteq> []"
  shows "\<not> isspace (hd (strip s)) \<and> \<not> isspace (last (strip s))"
proof -
  let ?a = "dropWhile isspace s"
  let ?b = "dropWhile isspace (rev ?a)"
  have b: "?b \<noteq> []" using assms by (simp add: strip_def)
  then have l: "\<not> isspace (hd ?b)" by (rule hd_dropWhile)
  have "last (strip s) = hd ?b"
    using b by (simp add: strip_def last_rev)
  with l have 1: "\<not> isspace (last (strip s))" by simp
  have a: "?a \<noteq> []"
  proof
    assume "?a = []"
    then have "?b = []" by (simp only: rev.simps dropWhile.simps)
    with b show False by simp
  qed
  then have ha: "\<not> isspace (hd ?a)" by (rule hd_dropWhile)
  obtain zs where zs: "rev ?a = takeWhile isspace (rev ?a) @ ?b"
    by simp
  then have "?a = rev ?b @ rev (takeWhile isspace (rev ?a))"
    by (metis rev_append rev_rev_ident)
  then have "hd ?a = hd (rev ?b)"
    using b by (metis hd_append2 rev_is_Nil_conv)
  with ha have "\<not> isspace (hd (strip s))"
    by (simp add: strip_def)
  with 1 show ?thesis by simp
qed

lemma strip_decomp:
  "\<exists>a b. s = a @ strip s @ b \<and> (\<forall>c \<in> set a. isspace c) \<and> (\<forall>c \<in> set b. isspace c)"
proof -
  let ?a = "dropWhile isspace s"
  let ?b = "dropWhile isspace (rev ?a)"
  have 1: "s = takeWhile isspace s @ ?a" by simp
  have "rev ?a = takeWhile isspace (rev ?a) @ ?b" by simp
  then have 2: "?a = rev ?b @ rev (takeWhile isspace (rev ?a))"
    by (metis rev_append rev_rev_ident)
  have "s = takeWhile isspace s @ strip s @ rev (takeWhile isspace (rev ?a))"
    using 1 2 by (simp add: strip_def)
  moreover have "\<forall>c \<in> set (takeWhile isspace s). isspace c"
    by (auto dest: set_takeWhileD)
  moreover have "\<forall>c \<in> set (rev (takeWhile isspace (rev ?a))). isspace c"
    by (auto dest: set_takeWhileD)
  ultimately show ?thesis by blast
qed

lemma strip_idem: "strip (strip s) = strip s"
proof (cases "strip s = []")
  case True
  have "strip [] = []" by (simp add: strip_def)
  with True show ?thesis by simp
next
  case False
  from strip_ends[OF False] have h: "\<not> isspace (hd (strip s))" and l: "\<not> isspace (last (strip s))"
    by auto
  have 1: "dropWhile isspace (strip s) = strip s"
    using False h by (rule dropWhile_idem_hd)
  have "hd (rev (strip s)) = last (strip s)"
    using False by (simp add: hd_rev)
  then have "dropWhile isspace (rev (strip s)) = rev (strip s)"
    using False l by (intro dropWhile_idem_hd) auto
  with 1 show ?thesis
    by (simp add: strip_def[of "strip s"])
qed

lemma field_title_Some:
  "field_title partial (Some raw) =
     (if strip raw = [] \<or> 255 < length (strip raw) then Inl [(''title'', InvalidField)]
      else Inr (Some (strip raw)))"
  by (simp add: field_title_def CharField_def validate_title_def strip_idem Let_def)

section \<open>Serializer and save\<close>

lemma is_valid_Inr:
  "TaskSerializer_is_valid now hi partial inp = Inr v \<Longrightarrow>
   field_title partial (in_title inp) = Inr (in_title v) \<and>
   field_description (in_description inp) = Inr (in_description v) \<and>
   field_due_date now hi (in_due_date inp) = Inr (in_due_date v) \<and>
   in_status v = in_status inp"
  by (auto simp: TaskSerializer_is_valid_def Let_def split: sum.splits)

lemma is_valid_title_error:
  "field_title partial (in_title inp) = Inl es \<Longrightarrow>
   \<exists>es'. TaskSerializer_is_valid now hi partial inp = Inl (es @ es')"
  by (auto simp: TaskSerializer_is_valid_def Let_def errs_of_def split: sum.splits)

lemma is_valid_due_date_error:
  "field_due_date now hi (in_due_date inp) = Inl es \<Longrightarrow>
   \<exists>es'. TaskSerializer_is_valid now hi partial inp = Inl (es' @ es)"
  by (auto simp: TaskSerializer_is_valid_def Let_def errs_of_def split: sum.splits)

lemma field_due_date_update: "field_due_date now True v = Inr v"
  by (auto simp: field_due_date_def validate_due_date_def split: option.splits)

lemma field_due_date_past:
  "d < now \<Longrightarrow> field_due_date now False (Some (Some d)) = Inl [(''due_date'', InvalidField)]"
  by (simp add: field_due_date_def validate_due_date_def)

lemma is_valid_update_due_date:
  "TaskSerializer_is_valid now True partial (inp\<lparr>in_due_date := x\<rparr>) =
     (case TaskSerializer_is_valid now True partial (inp\<lparr>in_due_date := None\<rparr>) of
        Inl es \<Rightarrow> Inl es
      | Inr v \<Rightarrow> Inr (v\<lparr>in_due_date := x\<rparr>))"
  by (auto simp: TaskSerializer_is_valid_def Let_def field_due_date_update errs_of_def
           split: sum.splits)

lemma Task_save_existing:
  "0 < i \<Longrightarrow>
   Task_save now (Some i) t s =
     (if title t = [] \<or> 255 < length (title t) then Inl (Invalid [(''title'', InvalidField)])
      else Inr (t\<lparr>updated_at := now\<rparr>,
                s\<lparr>tasks := map (\<lambda>x. if task_id x = i then t\<lparr>updated_at := now\<rparr> else x) (tasks s)\<rparr>))"
  by (auto simp: Task_save_def Task_full_clean_def Task_clean_fields_def Task_clean_def
        not_pk_def Let_def split: option.splits)

lemma Task_save_new:
  "Task_save now None t s =
     (case Task_clean_fields t @ Task_clean now None t of
        e # es \<Rightarrow> Inl (Invalid (e # es))
      | [] \<Rightarrow>
         Inr (t\<lparr>task_id := next_task_id s, created_at := now, updated_at := now\<rparr>,
              s\<lparr>tasks := tasks s @ [t\<lparr>task_id := next_task_id s, created_at := now, updated_at := now\<rparr>],
                next_task_id := Suc (next_task_id s)\<rparr>))"
  by (simp add: Task_save_def Task_full_clean_def Let_def split: list.splits)

lemma wf_db_pos: "wf_db s \<Longrightarrow> t \<in> set (tasks s) \<Longrightarrow> 0 < task_id t"
  by (auto simp: wf_db_def list_all_iff)

lemma create_task_title_error:
  assumes "field_title False (in_title inp) = Inl [(''title'', InvalidField)]"
  shows "invalid_field (create_task s now (AuthUser u) inp) ''title''"
proof -
  from is_valid_title_error[OF assms] obtain es' where
    "TaskSerializer_is_valid now False False inp = Inl ([(''title'', InvalidField)] @ es')"
    by blast
  then show ?thesis
    by (simp add: create_task_def invalid_field_def)
qed

lemma update_task_title_error:
  assumes "field_title partial (in_title inp) = Inl [(''title'', InvalidField)]"
    and "get_object s (AuthUser u) pk = Inr t"
  shows "invalid_field (update_task s now (AuthUser u) pk partial inp) ''title''"
proof -
  from is_valid_title_error[OF assms(1)] obtain es' where
    "TaskSerializer_is_valid now True partial inp = Inl ([(''title'', InvalidField)] @ es')"
    by blast
  with assms(2) show ?thesis
    by (simp add: update_task_def invalid_field_def)
qed

lemma update_task_title_unchanged:
  assumes "field_title partial (in_title inp) = Inl es"
  shows "step fmt s (UpdateTask now ru pk partial inp) = s"
proof -
  from is_valid_title_error[OF assms] obtain es' where
    "TaskSerializer_is_valid now True partial inp = Inl (es @ es')"
    by blast
  then show ?thesis
    by (simp add: update_task_def split: request_user.splits sum.splits)
qed

lemma step_create_failed:
  "create_task s now ru inp = Inl e \<Longrightarrow> step fmt s (CreateTask now ru inp) = s"
  by simp

lemma invalid_field_Inl: "invalid_field r f \<Longrightarrow> \<exists>e. r = Inl e"
  by (cases r) (auto simp: invalid_field_def)

lemma update_task_Inr:
  assumes "update_task s now ru pk partial inp = Inr (t', s')" and "wf_db s"
  shows "\<exists>t v. get_object s ru pk = Inr t \<and>
           TaskSerializer_is_valid now True partial inp = Inr v \<and>
           t' = t\<lparr>task_user := task_user t,
                  title := (case in_title v of None \<Rightarrow> title t | Some x \<Rightarrow> x),
                  description := (case in_description v of None \<Rightarrow> description t | Some d \<Rightarrow> d),
                  status := (case in_status v of None \<Rightarrow> status t | Some st \<Rightarrow> st),
                  due_date := (case in_due_date v of None \<Rightarrow> due_date t | Some d \<Rightarrow> d),
                  updated_at := now\<rparr> \<and>
           s' = s\<lparr>tasks := map (\<lambda>x. if task_id x = pk then t' else x) (tasks s)\<rparr>"
proof -
  from assms(1) obtain u where ru: "ru = AuthUser u"
    by (cases ru) (auto simp: update_task_def)
  from assms(1) ru obtain t where t: "get_object s ru pk = Inr t"
    by (cases "get_object s ru pk") (auto simp: update_task_def)
  from assms(1) ru t obtain v where v: "TaskSerializer_is_valid now True partial inp = Inr v"
    by (cases "TaskSerializer_is_valid now True partial inp") (auto simp: update_task_def)
  from get_object_Inr[OF t] have tin: "t \<in> set (tasks s)" and id: "task_id t = pk"
    and u: "u = task_user t"
    using ru by auto
  have pos: "0 < task_id t"
    using wf_db_pos[OF assms(2) tin] .
  from assms(1) ru t v u id pos show ?thesis
    by (auto simp: update_task_def Task_save_existing split: if_splits)
qed

lemma map_replace_mem:
  "t \<in> set xs \<Longrightarrow> f t = i \<Longrightarrow> t' \<in> set (map (\<lambda>x. if f x = i then t' else x) xs)"
  by (induction xs) auto

lemma update_task_stored:
  assumes "update_task s now ru pk partial inp = Inr (t', s')" and "wf_db s"
  shows "t' \<in> set (tasks s')"
proof -
  from update_task_Inr[OF assms] obtain t where
    t: "get_object s ru pk = Inr t" and
    s': "s' = s\<lparr>tasks := map (\<lambda>x. if task_id x = pk then t' else x) (tasks s)\<rparr>"
    by blast
  from get_object_Inr[OF t] have "t \<in> set (tasks s)" "task_id t = pk" by auto
  then show ?thesis
    unfolding s' by (simp add: map_replace_mem)
qed

lemma create_task_Inr:
  assumes "create_task s now ru inp = Inr (t, s')"
  shows "\<exists>u v. ru = AuthUser u \<and> TaskSerializer_is_valid now False False inp = Inr v \<and>
           t = \<lparr>task_id = next_task_id s, task_user = u,
                title = (case in_title v of None \<Rightarrow> [] | Some x \<Rightarrow> x),
                description = (case in_description v of None \<Rightarrow> None | Some d \<Rightarrow> d),
                status = (case in_status v of None \<Rightarrow> Pending | Some st \<Rightarrow> st),
                due_date = (case in_due_date v of None \<Rightarrow> None | Some d \<Rightarrow> d),
                created_at = now, updated_at = now\<rparr> \<and>
           s' = s\<lparr>tasks := tasks s @ [t], next_task_id := Suc (next_task_id s)\<rparr>"
proof -
  from assms obtain u where ru: "ru = AuthUser u"
    by (cases ru) (auto simp: create_task_def)
  from assms ru obtain v where v: "TaskSerializer_is_valid now False False inp = Inr v"
    by (cases "TaskSerializer_is_valid now False False inp") (auto simp: create_task_def)
  from assms ru v show ?thesis
    by (auto simp: create_task_def Task_save_new split: list.splits)
qed

lemma get_object_Inl: "get_object s ru pk = Inl e \<Longrightarrow> e = NotFound"
  by (auto simp: get_object_def split: option.splits)

lemma update_task_due_date_independent:
  assumes "wf_db s"
  shows "update_task s now ru pk partial (inp\<lparr>in_due_date := x\<rparr>) =
     (case update_task s now ru pk partial (inp\<lparr>in_due_date := None\<rparr>) of
        Inl e \<Rightarrow> Inl e
      | Inr (t, s') \<Rightarrow>
          (case x of
             None \<Rightarrow> Inr (t, s')
           | Some d \<Rightarrow>
               Inr (t\<lparr>due_date := d\<rparr>,
                    s\<lparr>tasks := map (\<lambda>y. if task_id y = pk then t\<lparr>due_date := d\<rparr> else y) (tasks s)\<rparr>)))"
proof (cases ru)
  case AnonymousUser
  then show ?thesis by (simp add: update_task_def)
next
  case (AuthUser u)
  show ?thesis
  proof (cases "get_object s ru pk")
    case (Inl e)
    with AuthUser show ?thesis by (simp add: update_task_def)
  next
    case (Inr t)
    from get_object_Inr[OF Inr] have tin: "t \<in> set (tasks s)" and id: "task_id t = pk"
      by auto
    have pos: "0 < pk"
      using wf_db_pos[OF assms tin] id by simp
    show ?thesis
    proof (cases "TaskSerializer_is_valid now True partial (inp\<lparr>in_due_date := None\<rparr>)")
      case (Inl es)
      with AuthUser Inr show ?thesis
        by (simp add: update_task_def is_valid_update_due_date[where x = x])
    next
      case v: (Inr v)
      from is_valid_Inr[OF v] have dv: "in_due_date v = None"
        by (simp add: field_due_date_def)
      have vx: "TaskSerializer_is_valid now True partial (inp\<lparr>in_due_date := x\<rparr>) =
                  Inr (v\<lparr>in_due_date := x\<rparr>)"
        by (simp add: is_valid_update_due_date[where x = x] v)
      from AuthUser Inr v vx dv id pos show ?thesis
        by (cases x) (auto simp: update_task_def Task_save_existing)
    qed
  qed
qed


section \<open>The invariant is preserved\<close>

lemma wf_empty_db: "wf_db empty_db"
  by (simp add: wf_db_def empty_db_def)

lemma wf_db_tasks_cong:
  "wf_db s \<Longrightarrow> map task_id (tasks s') = map task_id (tasks s) \<Longrightarrow>
   next_task_id s' = next_task_id s \<Longrightarrow> wf_db s'"
proof -
  assume wf: "wf_db s" and m: "map task_id (tasks s') = map task_id (tasks s)"
    and n: "next_task_id s' = next_task_id s"
  have "set (map task_id (tasks s')) = set (map task_id (tasks s))"
    using m by simp
  then have "task_id ` set (tasks s') = task_id ` set (tasks s)"
    by simp
  then have "\<forall>t \<in> set (tasks s'). \<exists>t0 \<in> set (tasks s). task_id t = task_id t0"
    by (metis imageE imageI)
  then have "\<forall>t \<in> set (tasks s'). 0 < task_id t \<and> task_id t < next_task_id s"
    using wf by (auto simp: wf_db_def list_all_iff)
  with wf m n show "wf_db s'"
    by (simp add: wf_db_def list_all_iff)
qed

lemma map_task_id_replace:
  "task_id t' = i \<Longrightarrow> map task_id (map (\<lambda>x. if task_id x = i then t' else x) xs) = map task_id xs"
  by (induction xs) auto

lemma wf_db_tasks_filter:
  "wf_db s \<Longrightarrow> wf_db (s\<lparr>tasks := filter P (tasks s)\<rparr>)"
  by (auto simp: wf_db_def list_all_iff distinct_map_filter)

lemma wf_create_task:
  assumes "wf_db s" and "create_task s now ru inp = Inr (t, s')"
  shows "wf_db s'"
proof -
  from create_task_Inr[OF assms(2)] have
    id: "task_id t = next_task_id s" and
    s': "s' = s\<lparr>tasks := tasks s @ [t], next_task_id := Suc (next_task_id s)\<rparr>"
    by auto
  from assms(1) id show ?thesis
    unfolding s' by (auto simp: wf_db_def list_all_iff)
qed

lemma update_task_id:
  assumes "update_task s now ru pk partial inp = Inr (t, s')" and "wf_db s"
  shows "task_id t = pk \<and>
         s' = s\<lparr>tasks := map (\<lambda>x. if task_id x = pk then t else x) (tasks s)\<rparr>"
proof -
  from assms(1) obtain u where ru: "ru = AuthUser u"
    by (cases ru) (auto simp: update_task_def)
  from assms(1) ru obtain t1 where t1: "get_object s ru pk = Inr t1"
    by (cases "get_object s ru pk") (auto simp: update_task_def)
  from assms(1) ru t1 obtain v where v: "TaskSerializer_is_valid now True partial inp = Inr v"
    by (cases "TaskSerializer_is_valid now True partial inp") (auto simp: update_task_def)
  from get_object_Inr[OF t1] have tin: "t1 \<in> set (tasks s)" and id: "task_id t1 = pk"
    by auto
  have pos: "0 < task_id t1"
    using wf_db_pos[OF assms(2) tin] .
  from assms(1) ru t1 v id pos show ?thesis
    by (auto simp: update_task_def Task_save_existing split: if_splits)
qed

lemma wf_update_task:
  assumes "wf_db s" and "update_task s now ru pk partial inp = Inr (t, s')"
  shows "wf_db s'"
proof -
  from update_task_id[OF assms(2,1)] have id: "task_id t = pk" and
    s': "s' = s\<lparr>tasks := map (\<lambda>x. if task_id x = pk then t else x) (tasks s)\<rparr>"
    by auto
  show ?thesis
    using assms(1) unfolding s' by (rule wf_db_tasks_cong) (simp_all add: map_task_id_replace id)
qed

lemma complete_task_id:
  assumes "complete_task s now ru pk = Inr (t, s')" and "wf_db s"
  shows "task_id t = pk \<and>
         s' = s\<lparr>tasks := map (\<lambda>x. if task_id x = pk then t else x) (tasks s)\<rparr>"
proof -
  from assms(1) have au: "is_authenticated ru"
    by (auto simp: complete_task_def split: if_splits)
  with assms(1) obtain t1 where t1: "get_object s ru pk = Inr t1"
    by (cases "get_object s ru pk") (auto simp: complete_task_def)
  from get_object_Inr[OF t1] have tin: "t1 \<in> set (tasks s)" and id: "task_id t1 = pk"
    by auto
  have pos: "0 < task_id t1"
    using wf_db_pos[OF assms(2) tin] .
  from assms(1) au t1 id pos show ?thesis
    by (auto simp: complete_task_def Task_save_existing split: if_splits)
qed

lemma wf_complete_task:
  assumes "wf_db s" and "complete_task s now ru pk = Inr (t, s')"
  shows "wf_db s'"
proof -
  from complete_task_id[OF assms(2,1)] have id: "task_id t = pk" and
    s': "s' = s\<lparr>tasks := map (\<lambda>x. if task_id x = pk then t else x) (tasks s)\<rparr>"
    by auto
  show ?thesis
    using assms(1) unfolding s' by (rule wf_db_tasks_cong) (simp_all add: map_task_id_replace id)
qed

lemma wf_delete_task:
  assumes "wf_db s" and "delete_task s ru pk = Inr s'"
  shows "wf_db s'"
  using assms
  by (auto simp: delete_task_def wf_db_tasks_filter split: if_splits sum.splits)

lemma tasks_get_or_create: "tasks (snd (get_or_create s u k)) = tasks s"
  "next_task_id (snd (get_or_create s u k)) = next_task_id s"
  by (auto simp: get_or_create_def split: option.splits)

lemma register_tasks:
  "register fmt s key inp = Inr (u, k, s') \<Longrightarrow>
   tasks s' = tasks s \<and> next_task_id s' = next_task_id s"
  by (auto simp: register_def UserSerializer_create_def get_or_create_def Let_def
        split: sum.splits option.splits prod.splits)

lemma login_tasks:
  "login s key uname pw = Inr (u, k, s') \<Longrightarrow>
   tasks s' = tasks s \<and> next_task_id s' = next_task_id s"
  by (auto simp: login_def get_or_create_def Let_def split: sum.splits option.splits prod.splits)

lemma logout_tasks:
  "logout s ru = Inr s' \<Longrightarrow> tasks s' = tasks s \<and> next_task_id s' = next_task_id s"
  by (auto simp: logout_def split: request_user.splits option.splits)

lemma wf_delete_user: "wf_db s \<Longrightarrow> wf_db (delete_user s uid)"
  by (auto simp: delete_user_def wf_db_def list_all_iff distinct_map_filter)

lemma wf_same_tasks:
  "wf_db s \<Longrightarrow> tasks s' = tasks s \<and> next_task_id s' = next_task_id s \<Longrightarrow> wf_db s'"
  by (simp add: wf_db_def)

lemma wf_step: "wf_db s \<Longrightarrow> wf_db (step fmt s r)"
proof (cases r)
  case (Register key inp)
  assume wf: "wf_db s"
  show ?thesis
  proof (cases "register fmt s key inp")
    case (Inl e)
    with Register wf show ?thesis by simp
  next
    case (Inr x)
    then obtain u k s' where x: "register fmt s key inp = Inr (u, k, s')"
      by (cases x) auto
    from wf_same_tasks[OF wf register_tasks[OF x]] Register x show ?thesis by simp
  qed
next
  case (Login key uname pw)
  assume wf: "wf_db s"
  show ?thesis
  proof (cases "login s key uname pw")
    case (Inl e)
    with Login wf show ?thesis by simp
  next
    case (Inr x)
    then obtain u k s' where x: "login s key uname pw = Inr (u, k, s')"
      by (cases x) auto
    from wf_same_tasks[OF wf login_tasks[OF x]] Login x show ?thesis by simp
  qed
next
  case (Logout ru)
  assume wf: "wf_db s"
  show ?thesis
  proof (cases "logout s ru")
    case (Inl e)
    with Logout wf show ?thesis by simp
  next
    case (Inr s')
    from wf_same_tasks[OF wf logout_tasks[OF Inr]] Logout Inr show ?thesis by simp
  qed
next
  case (CreateTask now ru inp)
  assume wf: "wf_db s"
  show ?thesis
  proof (cases "create_task s now ru inp")
    case (Inl e)
    with CreateTask wf show ?thesis by simp
  next
    case (Inr x)
    then obtain t s' where x: "create_task s now ru inp = Inr (t, s')"
      by (cases x) auto
    from wf_create_task[OF wf x] CreateTask x show ?thesis by simp
  qed
next
  case (UpdateTask now ru pk partial inp)
  assume wf: "wf_db s"
  show ?thesis
  proof (cases "update_task s now ru pk partial inp")
    case (Inl e)
    with UpdateTask wf show ?thesis by simp
  next
    case (Inr x)
    then obtain t s' where x: "update_task s now ru pk partial inp = Inr (t, s')"
      by (cases x) auto
    from wf_update_task[OF wf x] UpdateTask x show ?thesis by simp
  qed
next
  case (CompleteTask now ru pk)
  assume wf: "wf_db s"
  show ?thesis
  proof (cases "complete_task s now ru pk")
    case (Inl e)
    with CompleteTask wf show ?thesis by simp
  next
    case (Inr x)
    then obtain t s' where x: "complete_task s now ru pk = Inr (t, s')"
      by (cases x) auto
    from wf_complete_task[OF wf x] CompleteTask x show ?thesis by simp
  qed
next
  case (DeleteTask ru pk)
  assume wf: "wf_db s"
  show ?thesis
  proof (cases "delete_task s ru pk")
    case (Inl e)
    with DeleteTask wf show ?thesis by simp
  next
    case (Inr s')
    from wf_delete_task[OF wf Inr] DeleteTask Inr show ?thesis by simp
  qed
next
  case (DeleteUser uid)
  assume "wf_db s"
  then show ?thesis
    using DeleteUser by (simp add: wf_delete_user)
qed

lemma wf_steps: "wf_db s \<Longrightarrow> wf_db (foldl (step fmt) s rs)"
  by (induction rs arbitrary: s) (simp_all add: wf_step)

lemma wf_reachable: "wf_db (foldl (step fmt) empty_db rs)"
  by (rule wf_steps[OF wf_empty_db])

lemma create_task_title_ok:
  assumes "create_task s now ru inp = Inr (t, s')"
  shows "title t \<noteq> [] \<and> length (title t) \<le> 255"
proof -
  from create_task_Inr[OF assms] obtain u v where
    ru: "ru = AuthUser u" and v: "TaskSerializer_is_valid now False False inp = Inr v" and
    t: "title t = (case in_title v of None \<Rightarrow> [] | Some x \<Rightarrow> x)"
    by auto
  from assms ru v have "Task_clean_fields
      \<lparr>task_id = 0, task_user = u,
       title = (case in_title v of None \<Rightarrow> [] | Some t \<Rightarrow> t),
       description = (case in_description v of None \<Rightarrow> None | Some d \<Rightarrow> d),
       status = (case in_status v of None \<Rightarrow> Pending | Some st \<Rightarrow> st),
       due_date = (case in_due_date v of None \<Rightarrow> None | Some d \<Rightarrow> d),
       created_at = 0, updated_at = 0\<rparr> = []"
    by (auto simp: create_task_def Task_save_def Task_full_clean_def split: list.splits)
  with t show ?thesis
    by (auto simp: Task_clean_fields_def split: if_splits)
qed

lemma complete_task_found:
  assumes "wf_db s" and "t \<in> set (tasks s)" and "task_user t = u"
    and "title t \<noteq> []" and "length (title t) \<le> 255"
  shows "complete_task s now (AuthUser u) (task_id t) =
           Inr (t\<lparr>status := Completed, updated_at := now\<rparr>,
                s\<lparr>tasks := map (\<lambda>x. if task_id x = task_id t
                                      then t\<lparr>status := Completed, updated_at := now\<rparr> else x)
                               (tasks s)\<rparr>)"
proof -
  have g: "get_object s (AuthUser u) (task_id t) = Inr t"
    using assms(1-3) by (rule get_object_found)
  have pos: "0 < task_id t"
    using wf_db_pos[OF assms(1,2)] .
  show ?thesis
    using assms(4,5) by (simp add: complete_task_def is_authenticated_def g Task_save_existing[OF pos])
qed

lemma replaced_row:
  "x \<in> set (map (\<lambda>y. if task_id y = i then t' else y) xs) \<Longrightarrow> task_id x = i \<Longrightarrow>
   task_id t' = i \<Longrightarrow> x = t'"
  by (induction xs) (auto split: if_splits)

section \<open>Evaluation of the example states\<close>

lemma strip_Nil_list_all: "list_all isspace s \<Longrightarrow> strip s = []"
  by (simp add: strip_Nil_iff list_all_iff)

lemmas task_eval =
  create_task_def update_task_def complete_task_def delete_task_def retrieve_def
  get_object_def get_queryset_def Task_objects_def order_by_def
  TaskSerializer_is_valid_def field_title_def field_description_def field_due_date_def
  validate_title_def validate_due_date_def CharField_def errs_of_def
  Task_save_def Task_full_clean_def Task_clean_fields_def Task_clean_def not_pk_def
  strip_def isspace_def is_authenticated_def invalid_field_def
  ex_db_def ex_task_def ex_input_def ex_query_def ws_input_def long_input_def past_input_def
  ex_created_def ex_db_created_def ex_updated_def Let_def

lemma strip_ex_title: "strip '' Buy milk '' = ''Buy milk''"
  by (simp add: strip_def isspace_def)

lemma create_ex_input:
  "create_task ex_db 10 (AuthUser 1) ex_input = Inr (ex_created, ex_db_created)"
  by (simp add: task_eval)

lemma update_ex_input:
  "\<exists>t s'. update_task ex_db 10 (AuthUser 1) (task_id (ex_task 1 1)) True ex_input = Inr (t, s')"
  by (simp add: task_eval)

lemma update_past_input:
  "\<exists>s'. update_task ex_db 10 (AuthUser 1) (task_id (ex_task 1 1)) True
      (past_input\<lparr>in_due_date := Some (Some 5)\<rparr>) = Inr (ex_updated, s')"
  by (simp add: task_eval)

lemma ex_task_in_ex_db:
  "ex_task 1 1 \<in> set (tasks ex_db)" "task_user (ex_task 1 1) = 1"
  by (simp_all add: ex_db_def ex_task_def)

lemma long_title_length: "255 < length (strip (replicate 256 CHR ''a''))"
  by (simp add: strip_def isspace_def)

section \<open>Due dates\<close>

text \<open>
  C4. Creating a task whose due date is strictly before the current time fails with
  \<open>InvalidField\<close> on \<open>due_date\<close> and leaves the state as it was. An update never fails
  on account of the due date: in a well-formed state it fails with a given due date exactly
  when it fails with the due date left out, it never reports \<open>due_date\<close>, and when it
  succeeds the given due date (also a past one) is stored.
\<close>

theorem due_date_checked_on_create_only:
  "(d < now \<longrightarrow> in_due_date inp = Some (Some d) \<longrightarrow>
      invalid_field (create_task s now (AuthUser u) inp) ''due_date'' \<and>
      step fmt s (CreateTask now (AuthUser u) inp) = s) \<and>
   (wf_db s \<longrightarrow>
      (\<forall>e. update_task s now ru pk partial (inp\<lparr>in_due_date := Some (Some d)\<rparr>) = Inl e
          \<longleftrightarrow> update_task s now ru pk partial (inp\<lparr>in_due_date := None\<rparr>) = Inl e) \<and>
      \<not> invalid_field
          (update_task s now ru pk partial (inp\<lparr>in_due_date := Some (Some d)\<rparr>)) ''due_date'' \<and>
      (\<forall>t s'. update_task s now ru pk partial (inp\<lparr>in_due_date := Some (Some d)\<rparr>) = Inr (t, s')
          \<longrightarrow> due_date t = Some d \<and> t \<in> set (tasks s')))"
proof (intro conjI impI allI)
  assume past: "d < now" and dd: "in_due_date inp = Some (Some d)"
  from field_due_date_past[OF past] dd
  have "field_due_date now False (in_due_date inp) = Inl [(''due_date'', InvalidField)]"
    by simp
  from is_valid_due_date_error[OF this] obtain es' where
    "TaskSerializer_is_valid now False False inp = Inl (es' @ [(''due_date'', InvalidField)])"
    by blast
  then show c: "invalid_field (create_task s now (AuthUser u) inp) ''due_date''"
    by (simp add: create_task_def invalid_field_def)
  show "step fmt s (CreateTask now (AuthUser u) inp) = s"
    using invalid_field_Inl[OF c] by auto
next
  fix e
  assume wf: "wf_db s"
  show "update_task s now ru pk partial (inp\<lparr>in_due_date := Some (Some d)\<rparr>) = Inl e
          \<longleftrightarrow> update_task s now ru pk partial (inp\<lparr>in_due_date := None\<rparr>) = Inl e"
    by (subst update_task_due_date_independent[OF wf, where x = "Some (Some d)"])
       (auto split: sum.splits)
next
  assume wf: "wf_db s"
  let ?r = "update_task s now ru pk partial (inp\<lparr>in_due_date := Some (Some d)\<rparr>)"
  show "\<not> invalid_field ?r ''due_date''"
  proof
    assume a: "invalid_field ?r ''due_date''"
    then obtain es where es: "?r = Inl (Invalid es)" and m: "(''due_date'', InvalidField) \<in> set es"
      by (auto simp: invalid_field_def split: sum.splits failure.splits)
    from es obtain u t where ru: "ru = AuthUser u" and t: "get_object s ru pk = Inr t"
      by (cases ru; cases "get_object s ru pk") (auto simp: update_task_def dest: get_object_Inl)
    from get_object_Inr[OF t] have tin: "t \<in> set (tasks s)" and id: "task_id t = pk"
      by auto
    have pos: "0 < task_id t"
      using wf_db_pos[OF wf tin] .
    show False
    proof (cases "TaskSerializer_is_valid now True partial (inp\<lparr>in_due_date := Some (Some d)\<rparr>)")
      case (Inl es')
      then have "es' = es"
        using es ru t by (simp add: update_task_def)
      with Inl m show False
        by (auto simp: TaskSerializer_is_valid_def Let_def errs_of_def field_due_date_update
              field_title_def field_description_def
              split: sum.splits option.splits if_splits)
    next
      case (Inr v)
      with es ru t pos m show False
        by (auto simp: update_task_def Task_save_existing split: if_splits)
    qed
  qed
next
  fix t s'
  assume wf: "wf_db s"
    and c: "update_task s now ru pk partial (inp\<lparr>in_due_date := Some (Some d)\<rparr>) = Inr (t, s')"
  from update_task_Inr[OF c wf] obtain t1 v where
    v: "TaskSerializer_is_valid now True partial (inp\<lparr>in_due_date := Some (Some d)\<rparr>) = Inr v" and
    t': "t = t1\<lparr>task_user := task_user t1,
                  title := (case in_title v of None \<Rightarrow> title t1 | Some x \<Rightarrow> x),
                  description := (case in_description v of None \<Rightarrow> description t1 | Some d \<Rightarrow> d),
                  status := (case in_status v of None \<Rightarrow> status t1 | Some st \<Rightarrow> st),
                  due_date := (case in_due_date v of None \<Rightarrow> due_date t1 | Some d \<Rightarrow> d),
                  updated_at := now\<rparr>"
    by blast
  from is_valid_Inr[OF v] have "in_due_date v = Some (Some d)"
    by (simp add: field_due_date_update)
  then show "due_date t = Some d"
    by (subst t') simp
  show "t \<in> set (tasks s')" using c wf by (rule update_task_stored)
qed

theorem due_date_checked_on_create_only_witness:
  "(5::int) < 10 \<and> in_due_date past_input = Some (Some 5) \<and>
   invalid_field (create_task ex_db 10 (AuthUser 1) past_input) ''due_date'' \<and>
   step (\<lambda>e. True) ex_db (CreateTask 10 (AuthUser 1) past_input) = ex_db \<and>
   wf_db ex_db \<and>
   \<not> invalid_field
       (update_task ex_db 10 (AuthUser 1) (task_id (ex_task 1 1)) True
          (past_input\<lparr>in_due_date := Some (Some 5)\<rparr>)) ''due_date'' \<and>
   (\<exists>s'. update_task ex_db 10 (AuthUser 1) (task_id (ex_task 1 1)) True
            (past_input\<lparr>in_due_date := Some (Some 5)\<rparr>) = Inr (ex_updated, s') \<and>
          due_date ex_updated = Some 5 \<and> ex_updated \<in> set (tasks s'))"
proof -
  have h1: "(5::int) < 10" by simp
  have h2: "in_due_date past_input = Some (Some 5)" by (simp add: past_input_def)
  note T = due_date_checked_on_create_only
    [where d = 5 and now = 10 and inp = past_input and s = ex_db and u = 1
       and fmt = "\<lambda>e. True" and ru = "AuthUser 1" and pk = "task_id (ex_task 1 1)"
       and partial = True]
  from T h1 h2 have a:
    "invalid_field (create_task ex_db 10 (AuthUser 1) past_input) ''due_date'' \<and>
     step (\<lambda>e. True) ex_db (CreateTask 10 (AuthUser 1) past_input) = ex_db"
    by blast
  from T wf_ex_db have b:
    "\<not> invalid_field
       (update_task ex_db 10 (AuthUser 1) (task_id (ex_task 1 1)) True
          (past_input\<lparr>in_due_date := Some (Some 5)\<rparr>)) ''due_date''"
    by blast
  from T wf_ex_db have c:
    "\<forall>t s'. update_task ex_db 10 (AuthUser 1) (task_id (ex_task 1 1)) True
              (past_input\<lparr>in_due_date := Some (Some 5)\<rparr>) = Inr (t, s')
          \<longrightarrow> due_date t = Some 5 \<and> t \<in> set (tasks s')"
    by blast
  from update_past_input obtain s' where
    u: "update_task ex_db 10 (AuthUser 1) (task_id (ex_task 1 1)) True
          (past_input\<lparr>in_due_date := Some (Some 5)\<rparr>) = Inr (ex_updated, s')"
    by blast
  from c u have "due_date ex_updated = Some 5 \<and> ex_updated \<in> set (tasks s')"
    by blast
  with u have d:
    "\<exists>s'. update_task ex_db 10 (AuthUser 1) (task_id (ex_task 1 1)) True
            (past_input\<lparr>in_due_date := Some (Some 5)\<rparr>) = Inr (ex_updated, s') \<and>
          due_date ex_updated = Some 5 \<and> ex_updated \<in> set (tasks s')"
    by blast
  from h1 h2 a wf_ex_db b d show ?thesis
    by blast
qed

section \<open>Titles\<close>

text \<open>
  C5. When the title consists only of whitespace, creating a task fails with
  \<open>InvalidField\<close> on \<open>title\<close>, and so does updating a task the caller owns; both requests
  leave the state as it was. When a create or an update with a title succeeds, the title
  of the stored row is the given title with leading and trailing whitespace removed
  (\<open>strip\<close>, see \<open>strip_decomp\<close> and \<open>strip_ends\<close>).
\<close>

theorem whitespace_title_rejected_and_title_trimmed:
  "(list_all isspace ttl \<longrightarrow> in_title inp = Some ttl \<longrightarrow>
      invalid_field (create_task s now (AuthUser u) inp) ''title'' \<and>
      step fmt s (CreateTask now (AuthUser u) inp) = s \<and>
      (wf_db s \<longrightarrow> t0 \<in> set (tasks s) \<longrightarrow> task_user t0 = u \<longrightarrow>
         invalid_field (update_task s now (AuthUser u) (task_id t0) partial inp) ''title'') \<and>
      step fmt s (UpdateTask now (AuthUser u) pk partial inp) = s) \<and>
   (in_title inp = Some ttl \<longrightarrow>
      (\<forall>t s'. create_task s now ru inp = Inr (t, s') \<longrightarrow>
         title t = strip ttl \<and> t \<in> set (tasks s')) \<and>
      (wf_db s \<longrightarrow>
         (\<forall>t s'. update_task s now ru pk partial inp = Inr (t, s') \<longrightarrow>
            title t = strip ttl \<and> t \<in> set (tasks s'))))"
proof (intro conjI impI allI)
  assume ws: "list_all isspace ttl" and ti: "in_title inp = Some ttl"
  then have ft: "\<And>p. field_title p (in_title inp) = Inl [(''title'', InvalidField)]"
    by (simp add: field_title_Some strip_Nil_list_all)
  show c: "invalid_field (create_task s now (AuthUser u) inp) ''title''"
    using ft by (rule create_task_title_error)
  show "step fmt s (CreateTask now (AuthUser u) inp) = s"
    using invalid_field_Inl[OF c] by auto
  show "step fmt s (UpdateTask now (AuthUser u) pk partial inp) = s"
    using ft by (rule update_task_title_unchanged)
  assume "wf_db s" "t0 \<in> set (tasks s)" "task_user t0 = u"
  then have "get_object s (AuthUser u) (task_id t0) = Inr t0"
    by (rule get_object_found)
  with ft show "invalid_field (update_task s now (AuthUser u) (task_id t0) partial inp) ''title''"
    by (rule update_task_title_error)
next
  fix t s'
  assume ti: "in_title inp = Some ttl" and c: "create_task s now ru inp = Inr (t, s')"
  from create_task_Inr[OF c] obtain v where
    v: "TaskSerializer_is_valid now False False inp = Inr v" and
    t: "title t = (case in_title v of None \<Rightarrow> [] | Some x \<Rightarrow> x)" and
    s': "s' = s\<lparr>tasks := tasks s @ [t], next_task_id := Suc (next_task_id s)\<rparr>"
    by auto
  from is_valid_Inr[OF v] ti have "in_title v = Some (strip ttl)"
    by (auto simp: field_title_Some split: if_splits)
  with t show "title t = strip ttl" by simp
  show "t \<in> set (tasks s')" by (simp add: s')
next
  fix t s'
  assume ti: "in_title inp = Some ttl" and wf: "wf_db s"
    and c: "update_task s now ru pk partial inp = Inr (t, s')"
  from update_task_Inr[OF c wf] obtain t1 v where
    v: "TaskSerializer_is_valid now True partial inp = Inr v" and
    t': "t = t1\<lparr>task_user := task_user t1,
                  title := (case in_title v of None \<Rightarrow> title t1 | Some x \<Rightarrow> x),
                  description := (case in_description v of None \<Rightarrow> description t1 | Some d \<Rightarrow> d),
                  status := (case in_status v of None \<Rightarrow> status t1 | Some st \<Rightarrow> st),
                  due_date := (case in_due_date v of None \<Rightarrow> due_date t1 | Some d \<Rightarrow> d),
                  updated_at := now\<rparr>"
    by blast
  have t: "title t = (case in_title v of None \<Rightarrow> title t1 | Some x \<Rightarrow> x)"
    by (subst t') simp
  from is_valid_Inr[OF v] ti have "in_title v = Some (strip ttl)"
    by (auto simp: field_title_Some split: if_splits)
  with t show "title t = strip ttl" by simp
  show "t \<in> set (tasks s')" using c wf by (rule update_task_stored)
qed

theorem whitespace_title_rejected_and_title_trimmed_witness:
  "list_all isspace ''  '' \<and> in_title ws_input = Some ''  '' \<and>
   invalid_field (create_task ex_db 10 (AuthUser 1) ws_input) ''title'' \<and>
   step (\<lambda>e. True) ex_db (CreateTask 10 (AuthUser 1) ws_input) = ex_db \<and>
   wf_db ex_db \<and> ex_task 1 1 \<in> set (tasks ex_db) \<and> task_user (ex_task 1 1) = 1 \<and>
   invalid_field
     (update_task ex_db 10 (AuthUser 1) (task_id (ex_task 1 1)) True ws_input) ''title'' \<and>
   step (\<lambda>e. True) ex_db (UpdateTask 10 (AuthUser 1) (task_id (ex_task 1 1)) True ws_input)
     = ex_db \<and>
   in_title ex_input = Some '' Buy milk '' \<and>
   create_task ex_db 10 (AuthUser 1) ex_input = Inr (ex_created, ex_db_created) \<and>
   title ex_created = strip '' Buy milk '' \<and> ex_created \<in> set (tasks ex_db_created) \<and>
   (\<exists>t s'. update_task ex_db 10 (AuthUser 1) (task_id (ex_task 1 1)) True ex_input
             = Inr (t, s') \<and>
           title t = strip '' Buy milk '' \<and> t \<in> set (tasks s'))"
proof -
  have h1: "list_all isspace ''  ''" by (simp add: isspace_def)
  have h2: "in_title ws_input = Some ''  ''" by (simp add: ws_input_def)
  have h3: "in_title ex_input = Some '' Buy milk ''" by (simp add: ex_input_def)
  note A = whitespace_title_rejected_and_title_trimmed
    [where ttl = "''  ''" and inp = ws_input and s = ex_db and now = 10 and u = 1
       and fmt = "\<lambda>e. True" and ?t0.0 = "ex_task 1 1" and partial = True
       and pk = "task_id (ex_task 1 1)"]
  note B = whitespace_title_rejected_and_title_trimmed
    [where ttl = "'' Buy milk ''" and inp = ex_input and s = ex_db and now = 10
       and ru = "AuthUser 1" and partial = True and pk = "task_id (ex_task 1 1)"]
  from A h1 h2 wf_ex_db ex_task_in_ex_db have a:
    "invalid_field (create_task ex_db 10 (AuthUser 1) ws_input) ''title'' \<and>
     step (\<lambda>e. True) ex_db (CreateTask 10 (AuthUser 1) ws_input) = ex_db \<and>
     invalid_field
       (update_task ex_db 10 (AuthUser 1) (task_id (ex_task 1 1)) True ws_input) ''title'' \<and>
     step (\<lambda>e. True) ex_db (UpdateTask 10 (AuthUser 1) (task_id (ex_task 1 1)) True ws_input)
       = ex_db"
    by blast
  from B h3 create_ex_input have b:
    "title ex_created = strip '' Buy milk '' \<and> ex_created \<in> set (tasks ex_db_created)"
    by blast
  from update_ex_input obtain t s' where
    u: "update_task ex_db 10 (AuthUser 1) (task_id (ex_task 1 1)) True ex_input = Inr (t, s')"
    by blast
  from B h3 wf_ex_db u have "title t = strip '' Buy milk '' \<and> t \<in> set (tasks s')"
    by blast
  with u have c:
    "\<exists>t s'. update_task ex_db 10 (AuthUser 1) (task_id (ex_task 1 1)) True ex_input
             = Inr (t, s') \<and>
           title t = strip '' Buy milk '' \<and> t \<in> set (tasks s')"
    by blast
  from h1 h2 h3 a b c wf_ex_db ex_task_in_ex_db create_ex_input show ?thesis
    by blast
qed

text \<open>
  C10. When the trimmed title has more than 255 characters, creating a task fails with a
  validation error on \<open>title\<close>, and so does updating a task the caller owns; both
  requests leave the state as it was.
\<close>

theorem long_title_rejected:
  "255 < length (strip ttl) \<longrightarrow> in_title inp = Some ttl \<longrightarrow>
      invalid_field (create_task s now (AuthUser u) inp) ''title'' \<and>
      step fmt s (CreateTask now (AuthUser u) inp) = s \<and>
      (wf_db s \<longrightarrow> t0 \<in> set (tasks s) \<longrightarrow> task_user t0 = u \<longrightarrow>
         invalid_field (update_task s now (AuthUser u) (task_id t0) partial inp) ''title'') \<and>
      step fmt s (UpdateTask now (AuthUser u) pk partial inp) = s"
proof (intro conjI impI)
  assume ws: "255 < length (strip ttl)" and ti: "in_title inp = Some ttl"
  then have ft: "\<And>p. field_title p (in_title inp) = Inl [(''title'', InvalidField)]"
    by (simp add: field_title_Some)
  show c: "invalid_field (create_task s now (AuthUser u) inp) ''title''"
    using ft by (rule create_task_title_error)
  show "step fmt s (CreateTask now (AuthUser u) inp) = s"
    using invalid_field_Inl[OF c] by auto
  show "step fmt s (UpdateTask now (AuthUser u) pk partial inp) = s"
    using ft by (rule update_task_title_unchanged)
  assume "wf_db s" "t0 \<in> set (tasks s)" "task_user t0 = u"
  then have "get_object s (AuthUser u) (task_id t0) = Inr t0"
    by (rule get_object_found)
  with ft show "invalid_field (update_task s now (AuthUser u) (task_id t0) partial inp) ''title''"
    by (rule update_task_title_error)
qed

theorem long_title_rejected_witness:
  "255 < length (strip (replicate 256 CHR ''a'')) \<and>
   in_title long_input = Some (replicate 256 CHR ''a'') \<and>
   invalid_field (create_task ex_db 10 (AuthUser 1) long_input) ''title'' \<and>
   step (\<lambda>e. True) ex_db (CreateTask 10 (AuthUser 1) long_input) = ex_db \<and>
   wf_db ex_db \<and> ex_task 1 1 \<in> set (tasks ex_db) \<and> task_user (ex_task 1 1) = 1 \<and>
   invalid_field
     (update_task ex_db 10 (AuthUser 1) (task_id (ex_task 1 1)) False long_input) ''title'' \<and>
   step (\<lambda>e. True) ex_db (UpdateTask 10 (AuthUser 1) (task_id (ex_task 1 1)) False long_input)
     = ex_db"
proof -
  have h2: "in_title long_input = Some (replicate 256 CHR ''a'')"
    by (simp add: long_input_def)
  note A = long_title_rejected
    [where ttl = "replicate 256 CHR ''a''" and inp = long_input and s = ex_db and now = 10
       and u = 1 and fmt = "\<lambda>e. True" and ?t0.0 = "ex_task 1 1" and partial = False
       and pk = "task_id (ex_task 1 1)"]
  from A long_title_length h2 wf_ex_db ex_task_in_ex_db show ?thesis
    by blast
qed

section \<open>Creating and completing a task\<close>

text \<open>
  C9. In a well-formed state, a task created without a status is stored with status
  \<open>Pending\<close> and \<open>created_at\<close> the time of the request, and it is in the owner's pending
  list. Completing it then succeeds: the row has status \<open>Completed\<close> and \<open>updated_at\<close>
  the time of that request, it is in the owner's completed list, and no row with its key
  is in the pending list or (at any time) in the overdue list.
\<close>

theorem created_task_pending_then_completed:
  assumes wf: "wf_db s" and st: "in_status inp = None"
    and cr: "create_task s now (AuthUser u) inp = Inr (t, s1)"
  shows "status t = Pending \<and> created_at t = now \<and> t \<in> set (tasks s1) \<and>
     (\<exists>ts. list_pending s1 (AuthUser u) = Inr ts \<and> t \<in> set ts) \<and>
     (\<exists>s2. complete_task s1 now2 (AuthUser u) (task_id t) =
              Inr (t\<lparr>status := Completed, updated_at := now2\<rparr>, s2) \<and>
        t\<lparr>status := Completed, updated_at := now2\<rparr> \<in> set (tasks s2) \<and>
        (\<exists>ts. list_completed s2 (AuthUser u) = Inr ts \<and>
               t\<lparr>status := Completed, updated_at := now2\<rparr> \<in> set ts) \<and>
        (\<exists>ts. list_pending s2 (AuthUser u) = Inr ts \<and>
               list_all (\<lambda>x. task_id x \<noteq> task_id t) ts) \<and>
        (\<exists>ts. list_overdue s2 now3 (AuthUser u) = Inr ts \<and>
               list_all (\<lambda>x. task_id x \<noteq> task_id t) ts))"
proof -
  let ?t2 = "t\<lparr>status := Completed, updated_at := now2\<rparr>"
  let ?s2 = "s1\<lparr>tasks := map (\<lambda>x. if task_id x = task_id t then ?t2 else x) (tasks s1)\<rparr>"
  from create_task_Inr[OF cr] obtain v where
    v: "TaskSerializer_is_valid now False False inp = Inr v" and
    t: "t = \<lparr>task_id = next_task_id s, task_user = u,
                title = (case in_title v of None \<Rightarrow> [] | Some x \<Rightarrow> x),
                description = (case in_description v of None \<Rightarrow> None | Some d \<Rightarrow> d),
                status = (case in_status v of None \<Rightarrow> Pending | Some st \<Rightarrow> st),
                due_date = (case in_due_date v of None \<Rightarrow> None | Some d \<Rightarrow> d),
                created_at = now, updated_at = now\<rparr>" and
    s1: "s1 = s\<lparr>tasks := tasks s @ [t], next_task_id := Suc (next_task_id s)\<rparr>"
    by auto
  from is_valid_Inr[OF v] st have sv: "in_status v = None" by simp
  have a1: "status t = Pending" by (subst t) (simp add: sv)
  have a2: "created_at t = now" by (subst t) simp
  have a3: "t \<in> set (tasks s1)" by (simp add: s1)
  have own: "task_user t = u" by (subst t) simp
  have a4: "\<exists>ts. list_pending s1 (AuthUser u) = Inr ts \<and> t \<in> set ts"
    using a1 a3 own by (simp add: list_pending_def is_authenticated_def set_get_queryset)
  have wf1: "wf_db s1" using wf cr by (rule wf_create_task)
  from create_task_title_ok[OF cr] have tt: "title t \<noteq> []" "length (title t) \<le> 255"
    by auto
  have c: "complete_task s1 now2 (AuthUser u) (task_id t) = Inr (?t2, ?s2)"
    using wf1 a3 own tt by (rule complete_task_found)
  have b1: "?t2 \<in> set (tasks ?s2)"
    using a3 by (simp add: map_replace_mem)
  have b2: "\<exists>ts. list_completed ?s2 (AuthUser u) = Inr ts \<and> ?t2 \<in> set ts"
    using b1 own by (simp add: list_completed_def is_authenticated_def set_get_queryset)
  have only: "\<And>x. x \<in> set (tasks ?s2) \<Longrightarrow> task_id x = task_id t \<Longrightarrow> status x = Completed"
  proof -
    fix x assume "x \<in> set (tasks ?s2)" "task_id x = task_id t"
    then have "x = ?t2"
      by (intro replaced_row[of x "task_id t" ?t2 "tasks s1"]) simp_all
    then show "status x = Completed" by simp
  qed
  have b3: "\<exists>ts. list_pending ?s2 (AuthUser u) = Inr ts \<and>
               list_all (\<lambda>x. task_id x \<noteq> task_id t) ts"
    using only by (auto simp: list_pending_def is_authenticated_def list_all_iff set_get_queryset)
  have b4: "\<exists>ts. list_overdue ?s2 now3 (AuthUser u) = Inr ts \<and>
               list_all (\<lambda>x. task_id x \<noteq> task_id t) ts"
    using only by (auto simp: list_overdue_def is_authenticated_def list_all_iff set_get_queryset)
  from c b1 b2 b3 b4 have "\<exists>s2. complete_task s1 now2 (AuthUser u) (task_id t) = Inr (?t2, s2) \<and>
        ?t2 \<in> set (tasks s2) \<and>
        (\<exists>ts. list_completed s2 (AuthUser u) = Inr ts \<and> ?t2 \<in> set ts) \<and>
        (\<exists>ts. list_pending s2 (AuthUser u) = Inr ts \<and>
               list_all (\<lambda>x. task_id x \<noteq> task_id t) ts) \<and>
        (\<exists>ts. list_overdue s2 now3 (AuthUser u) = Inr ts \<and>
               list_all (\<lambda>x. task_id x \<noteq> task_id t) ts)"
    by (intro exI[of _ ?s2] conjI)
  with a1 a2 a3 a4 show ?thesis by (intro conjI)
qed

theorem created_task_pending_then_completed_witness:
  "wf_db ex_db \<and> in_status ex_input = None \<and>
   create_task ex_db 10 (AuthUser 1) ex_input = Inr (ex_created, ex_db_created) \<and>
   status ex_created = Pending \<and> created_at ex_created = 10 \<and>
   ex_created \<in> set (tasks ex_db_created) \<and>
   (\<exists>ts. list_pending ex_db_created (AuthUser 1) = Inr ts \<and> ex_created \<in> set ts) \<and>
   (\<exists>s2. complete_task ex_db_created 11 (AuthUser 1) (task_id ex_created) =
            Inr (ex_created\<lparr>status := Completed, updated_at := 11\<rparr>, s2) \<and>
      ex_created\<lparr>status := Completed, updated_at := 11\<rparr> \<in> set (tasks s2) \<and>
      (\<exists>ts. list_completed s2 (AuthUser 1) = Inr ts \<and>
             ex_created\<lparr>status := Completed, updated_at := 11\<rparr> \<in> set ts) \<and>
      (\<exists>ts. list_pending s2 (AuthUser 1) = Inr ts \<and>
             list_all (\<lambda>x. task_id x \<noteq> task_id ex_created) ts) \<and>
      (\<exists>ts. list_overdue s2 30 (AuthUser 1) = Inr ts \<and>
             list_all (\<lambda>x. task_id x \<noteq> task_id ex_created) ts))"
proof -
  have h2: "in_status ex_input = None" by (simp add: ex_input_def)
  note T = created_task_pending_then_completed
    [OF wf_ex_db h2 create_ex_input, where ?now2.0 = 11 and ?now3.0 = 30]
  from wf_ex_db h2 create_ex_input T show ?thesis
    by (intro conjI) blast+
qed

section \<open>Tokens\<close>

lemma map_of_filter_fst:
  "map_of (filter (\<lambda>r. fst r \<noteq> v) xs) u = (if u = v then None else map_of xs u)"
  by (induction xs) auto

lemma map_of_append_Some:
  "map_of xs u = Some k \<Longrightarrow> map_of (xs @ ys) u = Some k"
  by (simp add: map_add_Some_iff)

lemma get_or_create_token:
  "map_of (tokens s) u = Some k \<Longrightarrow> map_of (tokens (snd (get_or_create s v key))) u = Some k"
  by (auto simp: get_or_create_def map_of_append_Some split: option.splits)

lemma get_or_create_existing:
  "map_of (tokens s) u = Some k \<Longrightarrow> get_or_create s u key = (k, s)"
  by (simp add: get_or_create_def)

lemma get_or_create_result:
  "map_of (tokens (snd (get_or_create s u key))) u = Some (fst (get_or_create s u key))"
  by (auto simp: get_or_create_def map_add_def split: option.splits)

lemma Task_save_tokens:
  "Task_save now pk t s = Inr (t', s') \<Longrightarrow> tokens s' = tokens s \<and> users s' = users s"
  by (auto simp: Task_save_def Let_def split: list.splits option.splits)

lemma create_task_tokens:
  "create_task s now ru inp = Inr (t, s') \<Longrightarrow> tokens s' = tokens s \<and> users s' = users s"
  by (auto simp: create_task_def dest: Task_save_tokens split: request_user.splits sum.splits)

lemma update_task_tokens:
  "update_task s now ru pk partial inp = Inr (t, s') \<Longrightarrow>
   tokens s' = tokens s \<and> users s' = users s"
  by (auto simp: update_task_def dest: Task_save_tokens split: request_user.splits sum.splits)

lemma complete_task_tokens:
  "complete_task s now ru pk = Inr (t, s') \<Longrightarrow> tokens s' = tokens s \<and> users s' = users s"
  by (auto simp: complete_task_def dest: Task_save_tokens split: if_splits sum.splits)

lemma delete_task_tokens:
  "delete_task s ru pk = Inr s' \<Longrightarrow> tokens s' = tokens s \<and> users s' = users s"
  by (auto simp: delete_task_def split: if_splits sum.splits)

lemma register_token:
  assumes "map_of (tokens s) u = Some k" and "register fmt s key inp = Inr (usr, k', s')"
  shows "map_of (tokens s') u = Some k"
proof -
  from assms(2) obtain v where v: "UserSerializer_is_valid fmt s inp = Inr v"
    by (cases "UserSerializer_is_valid fmt s inp") (auto simp: register_def)
  let ?s1 = "snd (UserSerializer_create s key v)"
  have "map_of (tokens ?s1) u = Some k"
    using assms(1) by (simp add: UserSerializer_create_def Let_def map_of_append_Some)
  then have "map_of (tokens (snd (get_or_create ?s1 (user_id (fst (UserSerializer_create s key v))) key))) u
      = Some k"
    by (rule get_or_create_token)
  moreover from assms(2) v
  have "s' = snd (get_or_create ?s1 (user_id (fst (UserSerializer_create s key v))) key)"
    by (auto simp: register_def split: prod.splits)
  ultimately show ?thesis by simp
qed

lemma login_token:
  assumes "map_of (tokens s) u = Some k" and "login s key uname pw = Inr (usr, k', s')"
  shows "map_of (tokens s') u = Some k"
proof -
  from assms(2) obtain v where v: "AuthTokenSerializer_is_valid s uname pw = Inr v"
    by (cases "AuthTokenSerializer_is_valid s uname pw") (auto simp: login_def)
  with assms(2) have "s' = snd (get_or_create s (user_id v) key)"
    by (auto simp: login_def split: prod.splits)
  with get_or_create_token[OF assms(1)] show ?thesis by simp
qed

lemma logout_token:
  assumes "map_of (tokens s) u = Some k" and "logout s ru = Inr s'" and "ru \<noteq> AuthUser u"
  shows "map_of (tokens s') u = Some k"
  using assms
  by (cases ru) (auto simp: logout_def map_of_filter_fst split: option.splits)

lemma step_token:
  assumes tok: "map_of (tokens s) u = Some k"
    and "r \<noteq> Logout (AuthUser u)" and "r \<noteq> DeleteUser u"
  shows "map_of (tokens (step fmt s r)) u = Some k"
proof (cases r)
  case (Register key inp)
  show ?thesis
  proof (cases "register fmt s key inp")
    case (Inl e)
    with Register tok show ?thesis by simp
  next
    case (Inr x)
    then obtain usr k' s' where x: "register fmt s key inp = Inr (usr, k', s')"
      by (cases x) auto
    from register_token[OF tok x] Register x show ?thesis by simp
  qed
next
  case (Login key uname pw)
  show ?thesis
  proof (cases "login s key uname pw")
    case (Inl e)
    with Login tok show ?thesis by simp
  next
    case (Inr x)
    then obtain usr k' s' where x: "login s key uname pw = Inr (usr, k', s')"
      by (cases x) auto
    from login_token[OF tok x] Login x show ?thesis by simp
  qed
next
  case (Logout ru)
  with assms(2) have ne: "ru \<noteq> AuthUser u" by simp
  show ?thesis
  proof (cases "logout s ru")
    case (Inl e)
    with Logout tok show ?thesis by simp
  next
    case (Inr s')
    from logout_token[OF tok Inr ne] Logout Inr show ?thesis by simp
  qed
next
  case (CreateTask now ru inp)
  show ?thesis
  proof (cases "create_task s now ru inp")
    case (Inl e)
    with CreateTask tok show ?thesis by simp
  next
    case (Inr x)
    then obtain t s' where x: "create_task s now ru inp = Inr (t, s')"
      by (cases x) auto
    from create_task_tokens[OF x] tok CreateTask x show ?thesis by simp
  qed
next
  case (UpdateTask now ru pk partial inp)
  show ?thesis
  proof (cases "update_task s now ru pk partial inp")
    case (Inl e)
    with UpdateTask tok show ?thesis by simp
  next
    case (Inr x)
    then obtain t s' where x: "update_task s now ru pk partial inp = Inr (t, s')"
      by (cases x) auto
    from update_task_tokens[OF x] tok UpdateTask x show ?thesis by simp
  qed
next
  case (CompleteTask now ru pk)
  show ?thesis
  proof (cases "complete_task s now ru pk")
    case (Inl e)
    with CompleteTask tok show ?thesis by simp
  next
    case (Inr x)
    then obtain t s' where x: "complete_task s now ru pk = Inr (t, s')"
      by (cases x) auto
    from complete_task_tokens[OF x] tok CompleteTask x show ?thesis by simp
  qed
next
  case (DeleteTask ru pk)
  show ?thesis
  proof (cases "delete_task s ru pk")
    case (Inl e)
    with DeleteTask tok show ?thesis by simp
  next
    case (Inr s')
    from delete_task_tokens[OF Inr] tok DeleteTask Inr show ?thesis by simp
  qed
next
  case (DeleteUser uid)
  with assms(3) have "uid \<noteq> u" by simp
  with tok DeleteUser show ?thesis
    by (simp add: delete_user_def map_of_filter_fst)
qed

lemma steps_token:
  "map_of (tokens s) u = Some k \<Longrightarrow> Logout (AuthUser u) \<notin> set rs \<Longrightarrow>
   DeleteUser u \<notin> set rs \<Longrightarrow> map_of (tokens (foldl (step fmt) s rs)) u = Some k"
proof (induction rs arbitrary: s)
  case Nil
  then show ?case by simp
next
  case (Cons r rs)
  from Cons.prems have "map_of (tokens (step fmt s r)) u = Some k"
    by (intro step_token) auto
  from Cons.IH[OF this] Cons.prems show ?case by simp
qed

lemmas auth_eval =
  register_def login_def logout_def get_or_create_def UserSerializer_is_valid_def
  UserSerializer_create_def validate_registration_def field_username_def field_email_def
  field_password_def field_password_confirm_def field_name_def validate_username_def
  validate_email_def username_validator_def normalize_email_def
  AuthTokenSerializer_is_valid_def authenticate_def CharField_def errs_of_def
  strip_def isspace_def isalnum_def isalnum_char_def has_at_def empty_db_def
  ex_alice_def ex_auth_db_def ex_auth_db1_def reg_alice_def reg_alice2_def ex_alice2_def
  ex_auth_db2_def reg_bob_def ex_bob_def ex_bob_db_def Let_def

lemma lower_lowercase_examples:
  "lower ''alice@x.com'' = ''alice@x.com''" "lower ''x.com'' = ''x.com''"
  "lower ''Alice@x.com'' = ''alice@x.com''" "lower ''bob@example.com'' = ''bob@example.com''"
  "lower ''example.com'' = ''example.com''"
  by code_simp+

lemma register_alice:
  "register has_at empty_db ''k1'' reg_alice = Inr (ex_alice, ''k1'', ex_auth_db1)"
  by (simp add: auth_eval lower_lowercase_examples)

lemma login_alice:
  "login ex_auth_db ''k1'' ''alice'' ''secret123'' = Inr (ex_alice, ''k1'', ex_auth_db1)"
  "login ex_auth_db1 ''k2'' ''alice'' ''secret123'' = Inr (ex_alice, ''k1'', ex_auth_db1)"
  by (simp_all add: auth_eval)

lemma validate_username_underscore:
  "CHR ''_'' \<in> set v \<Longrightarrow> validate_username v = Inr v"
  by (simp add: validate_username_def)

lemma validate_username_word_characters:
  "v \<noteq> [] \<Longrightarrow> list_all (\<lambda>c. isalnum_char c \<or> c = CHR ''_'') v \<Longrightarrow>
   validate_username v = Inr v"
  by (auto simp: validate_username_def isalnum_def list_all_iff)

lemma validate_email_misses_other_case:
  assumes "list_all (\<lambda>u. email u = lower (email u)) (users s)" and "v \<noteq> lower v"
  shows "validate_email s v = Inr (lower v)"
  using assms by (auto simp: validate_email_def list_all_iff list_ex_iff)


lemma get_object_anonymous: "get_object s AnonymousUser pk = Inl NotFound"
  by (simp add: get_object_def get_queryset_def)

lemma delete_user_no_row:
  assumes "wf_db s" and "t \<in> set (tasks s)" and "task_user t = u"
  shows "\<forall>x \<in> set (tasks (delete_user s u)). task_user x \<noteq> u \<and> task_id x \<noteq> task_id t"
proof
  fix x assume "x \<in> set (tasks (delete_user s u))"
  then have x: "x \<in> set (tasks s)" "task_user x \<noteq> u"
    by (auto simp: delete_user_def)
  have "task_id x \<noteq> task_id t"
  proof
    assume "task_id x = task_id t"
    from wf_db_unique[OF assms(1) x(1) assms(2) this] x(2) assms(3) show False by simp
  qed
  with x show "task_user x \<noteq> u \<and> task_id x \<noteq> task_id t" by simp
qed

lemma get_object_no_row:
  assumes "\<forall>x \<in> set (tasks s). task_id x \<noteq> pk"
  shows "get_object s ru pk = Inl NotFound"
proof (cases ru)
  case AnonymousUser
  then show ?thesis by (simp add: get_object_anonymous)
next
  case (AuthUser c)
  from assms have "\<not> (\<exists>t \<in> set (tasks s). task_id t = pk \<and> task_user t = c)"
    by auto
  from get_object_NotFound[OF this] AuthUser show ?thesis by simp
qed

lemma get_queryset_subset: "set (get_queryset s ru) \<subseteq> set (tasks s)"
  by (cases ru) (auto simp: get_queryset_def Task_objects_def set_order_by)


section \<open>Deleting a user cascades\<close>

text \<open>
  C8. Deleting a user deletes the user's tasks: in a well-formed state, after the deletion
  no row is owned by the user or carries the key of one of the user's tasks; for every
  caller, retrieve, update, complete and delete on such a key fail, and the caller's lists
  hold no row with that key.
\<close>

theorem delete_user_cascades:
  assumes "wf_db s" and "t \<in> set (tasks s)" and "task_user t = u"
  shows "list_all (\<lambda>x. task_user x \<noteq> u \<and> task_id x \<noteq> task_id t) (tasks (delete_user s u)) \<and>
     retrieve (delete_user s u) ru (task_id t) =
       Inl (if is_authenticated ru then NotFound else NotAuthenticated) \<and>
     update_task (delete_user s u) now ru (task_id t) partial inp =
       Inl (if is_authenticated ru then NotFound else NotAuthenticated) \<and>
     complete_task (delete_user s u) now ru (task_id t) =
       Inl (if is_authenticated ru then NotFound else NotAuthenticated) \<and>
     delete_task (delete_user s u) ru (task_id t) =
       Inl (if is_authenticated ru then NotFound else NotAuthenticated) \<and>
     (case list_tasks (delete_user s u) ru q of
        Inl e \<Rightarrow> e = NotAuthenticated
      | Inr ts \<Rightarrow> list_all (\<lambda>x. task_id x \<noteq> task_id t) ts) \<and>
     (case list_pending (delete_user s u) ru of
        Inl e \<Rightarrow> e = NotAuthenticated
      | Inr ts \<Rightarrow> list_all (\<lambda>x. task_id x \<noteq> task_id t) ts) \<and>
     (case list_completed (delete_user s u) ru of
        Inl e \<Rightarrow> e = NotAuthenticated
      | Inr ts \<Rightarrow> list_all (\<lambda>x. task_id x \<noteq> task_id t) ts) \<and>
     (case list_overdue (delete_user s u) now ru of
        Inl e \<Rightarrow> e = NotAuthenticated
      | Inr ts \<Rightarrow> list_all (\<lambda>x. task_id x \<noteq> task_id t) ts)"
proof -
  let ?s = "delete_user s u"
  note rows = delete_user_no_row[OF assms]
  then have none: "\<forall>x \<in> set (tasks ?s). task_id x \<noteq> task_id t"
    by blast
  have g: "get_object ?s ru (task_id t) = Inl NotFound"
    using none by (rule get_object_no_row)
  have q: "\<forall>x \<in> set (get_queryset ?s ru). task_id x \<noteq> task_id t"
    using none get_queryset_subset[of ?s ru] by blast
  have c1: "list_all (\<lambda>x. task_user x \<noteq> u \<and> task_id x \<noteq> task_id t) (tasks ?s)"
    using rows by (simp add: list_all_iff)
  have c2: "retrieve ?s ru (task_id t) =
       Inl (if is_authenticated ru then NotFound else NotAuthenticated)"
    by (simp add: retrieve_def g)
  have c3: "update_task ?s now ru (task_id t) partial inp =
       Inl (if is_authenticated ru then NotFound else NotAuthenticated)"
    using g by (cases ru) (simp_all add: update_task_def is_authenticated_def)
  have c4: "complete_task ?s now ru (task_id t) =
       Inl (if is_authenticated ru then NotFound else NotAuthenticated)"
    by (simp add: complete_task_def g)
  have c5: "delete_task ?s ru (task_id t) =
       Inl (if is_authenticated ru then NotFound else NotAuthenticated)"
    by (simp add: delete_task_def g)
  have c6: "(case list_tasks ?s ru q of
        Inl e \<Rightarrow> e = NotAuthenticated
      | Inr ts \<Rightarrow> list_all (\<lambda>x. task_id x \<noteq> task_id t) ts)"
    using q set_filter_queryset[of q "get_queryset ?s ru"]
    by (auto simp: list_tasks_def list_all_iff)
  have c7: "(case list_pending ?s ru of
        Inl e \<Rightarrow> e = NotAuthenticated
      | Inr ts \<Rightarrow> list_all (\<lambda>x. task_id x \<noteq> task_id t) ts)"
    using q by (auto simp: list_pending_def list_all_iff)
  have c8: "(case list_completed ?s ru of
        Inl e \<Rightarrow> e = NotAuthenticated
      | Inr ts \<Rightarrow> list_all (\<lambda>x. task_id x \<noteq> task_id t) ts)"
    using q by (auto simp: list_completed_def list_all_iff)
  have c9: "(case list_overdue ?s now ru of
        Inl e \<Rightarrow> e = NotAuthenticated
      | Inr ts \<Rightarrow> list_all (\<lambda>x. task_id x \<noteq> task_id t) ts)"
    using q by (auto simp: list_overdue_def list_all_iff)
  from c1 c2 c3 c4 c5 c6 c7 c8 c9 show ?thesis
    by (intro conjI)
qed

theorem delete_user_cascades_witness:
  "wf_db ex_db \<and> ex_task 1 1 \<in> set (tasks ex_db) \<and> task_user (ex_task 1 1) = 1 \<and>
   list_all (\<lambda>x. task_user x \<noteq> 1 \<and> task_id x \<noteq> task_id (ex_task 1 1))
     (tasks (delete_user ex_db 1)) \<and>
   retrieve (delete_user ex_db 1) (AuthUser 2) (task_id (ex_task 1 1)) = Inl NotFound \<and>
   retrieve (delete_user ex_db 1) (AuthUser 1) (task_id (ex_task 1 1)) = Inl NotFound \<and>
   update_task (delete_user ex_db 1) 10 (AuthUser 1) (task_id (ex_task 1 1)) True ex_input
     = Inl NotFound \<and>
   complete_task (delete_user ex_db 1) 10 (AuthUser 1) (task_id (ex_task 1 1)) = Inl NotFound \<and>
   delete_task (delete_user ex_db 1) (AuthUser 1) (task_id (ex_task 1 1)) = Inl NotFound \<and>
   tasks (delete_user ex_db 1) = [ex_task 2 2]"
proof -
  note T = delete_user_cascades[OF wf_ex_db ex_task_in_ex_db, where now = 10 and partial = True
      and inp = ex_input and q = ex_query]
  have au: "is_authenticated (AuthUser 1)" "is_authenticated (AuthUser 2)"
    by (simp_all add: is_authenticated_def)
  have a: "list_all (\<lambda>x. task_user x \<noteq> 1 \<and> task_id x \<noteq> task_id (ex_task 1 1))
     (tasks (delete_user ex_db 1))"
    using T[where ru = "AuthUser 1"] by (rule conjunct1)
  have b: "retrieve (delete_user ex_db 1) (AuthUser 2) (task_id (ex_task 1 1)) = Inl NotFound"
    using T[where ru = "AuthUser 2"] au by simp
  have c: "retrieve (delete_user ex_db 1) (AuthUser 1) (task_id (ex_task 1 1)) = Inl NotFound"
    "update_task (delete_user ex_db 1) 10 (AuthUser 1) (task_id (ex_task 1 1)) True ex_input
       = Inl NotFound"
    "complete_task (delete_user ex_db 1) 10 (AuthUser 1) (task_id (ex_task 1 1)) = Inl NotFound"
    "delete_task (delete_user ex_db 1) (AuthUser 1) (task_id (ex_task 1 1)) = Inl NotFound"
    using T[where ru = "AuthUser 1"] au by simp_all
  have d: "tasks (delete_user ex_db 1) = [ex_task 2 2]"
    by (simp add: delete_user_def ex_db_def ex_task_def)
  from wf_ex_db ex_task_in_ex_db a b c d show ?thesis
    by (intro conjI)
qed

section \<open>Logout and login\<close>

text \<open>
  C7. Logout fails with \<open>NoActiveSession\<close> when the user has no token, and the state
  stays as it was; when the user has a token, logout succeeds and deletes it, leaving the
  tokens of other users, the users and the tasks as they were.
\<close>

theorem logout_deletes_token_or_fails:
  "(map_of (tokens s) u = None \<longrightarrow>
      logout s (AuthUser u) = Inl NoActiveSession \<and> step fmt s (Logout (AuthUser u)) = s) \<and>
   (map_of (tokens s) u = Some k \<longrightarrow>
      (\<exists>s'. logout s (AuthUser u) = Inr s' \<and> map_of (tokens s') u = None \<and>
            (\<forall>v. v \<noteq> u \<longrightarrow> map_of (tokens s') v = map_of (tokens s) v) \<and>
            users s' = users s \<and> tasks s' = tasks s))"
  by (auto simp: logout_def map_of_filter_fst)

theorem logout_deletes_token_or_fails_witness:
  "map_of (tokens ex_db) 2 = None \<and>
   logout ex_db (AuthUser 2) = Inl NoActiveSession \<and>
   step has_at ex_db (Logout (AuthUser 2)) = ex_db \<and>
   map_of (tokens ex_db) 1 = Some ''k1'' \<and>
   (\<exists>s'. logout ex_db (AuthUser 1) = Inr s' \<and> map_of (tokens s') 1 = None \<and>
         users s' = users ex_db \<and> tasks s' = tasks ex_db)"
proof -
  have h1: "map_of (tokens ex_db) 2 = None" and h2: "map_of (tokens ex_db) 1 = Some ''k1''"
    by (simp_all add: ex_db_def)
  from logout_deletes_token_or_fails[where s = ex_db and u = 2 and fmt = has_at] h1
  have a: "logout ex_db (AuthUser 2) = Inl NoActiveSession \<and>
           step has_at ex_db (Logout (AuthUser 2)) = ex_db"
    by blast
  from logout_deletes_token_or_fails[where s = ex_db and u = 1 and k = "''k1''"] h2
  have b: "\<exists>s'. logout ex_db (AuthUser 1) = Inr s' \<and> map_of (tokens s') 1 = None \<and>
         users s' = users ex_db \<and> tasks s' = tasks ex_db"
    by blast
  from h1 h2 a b show ?thesis by blast
qed

text \<open>
  C6. Login's \<open>get_or_create\<close> returns the token the user already has and leaves the
  state as it was. So a second call returns the token of the first, whatever requests come
  between them, as long as none is the user's logout or the deletion of the user; the same
  holds of two successful logins of one user.
\<close>

theorem issue_token_idempotent:
  "(map_of (tokens s) u = Some k \<longrightarrow> get_or_create s u k1 = (k, s)) \<and>
   (Logout (AuthUser u) \<notin> set rs \<longrightarrow> DeleteUser u \<notin> set rs \<longrightarrow>
      get_or_create (foldl (step fmt) (snd (get_or_create s u k1)) rs) u k2 =
        (fst (get_or_create s u k1), foldl (step fmt) (snd (get_or_create s u k1)) rs)) \<and>
   (login s k1 n p = Inr (usr, t1, s1) \<longrightarrow>
      Logout (AuthUser (user_id usr)) \<notin> set rs \<longrightarrow> DeleteUser (user_id usr) \<notin> set rs \<longrightarrow>
      login (foldl (step fmt) s1 rs) k2 n' p' = Inr (usr', t2, s2) \<longrightarrow>
      user_id usr' = user_id usr \<longrightarrow>
      t2 = t1 \<and> s2 = foldl (step fmt) s1 rs)"
proof -
  have a: "map_of (tokens s) u = Some k \<longrightarrow> get_or_create s u k1 = (k, s)"
    by (simp add: get_or_create_existing)
  have b: "Logout (AuthUser u) \<notin> set rs \<longrightarrow> DeleteUser u \<notin> set rs \<longrightarrow>
      get_or_create (foldl (step fmt) (snd (get_or_create s u k1)) rs) u k2 =
        (fst (get_or_create s u k1), foldl (step fmt) (snd (get_or_create s u k1)) rs)"
  proof (intro impI)
    assume no: "Logout (AuthUser u) \<notin> set rs" "DeleteUser u \<notin> set rs"
    let ?s1 = "snd (get_or_create s u k1)"
    have "map_of (tokens ?s1) u = Some (fst (get_or_create s u k1))"
      by (rule get_or_create_result)
    from steps_token[OF this no]
    have "map_of (tokens (foldl (step fmt) ?s1 rs)) u = Some (fst (get_or_create s u k1))" .
    then show "get_or_create (foldl (step fmt) ?s1 rs) u k2 =
          (fst (get_or_create s u k1), foldl (step fmt) ?s1 rs)"
      by (rule get_or_create_existing)
  qed
  have c: "login s k1 n p = Inr (usr, t1, s1) \<longrightarrow>
      Logout (AuthUser (user_id usr)) \<notin> set rs \<longrightarrow> DeleteUser (user_id usr) \<notin> set rs \<longrightarrow>
      login (foldl (step fmt) s1 rs) k2 n' p' = Inr (usr', t2, s2) \<longrightarrow>
      user_id usr' = user_id usr \<longrightarrow>
      t2 = t1 \<and> s2 = foldl (step fmt) s1 rs"
  proof (intro impI)
    assume l1: "login s k1 n p = Inr (usr, t1, s1)"
      and no: "Logout (AuthUser (user_id usr)) \<notin> set rs" "DeleteUser (user_id usr) \<notin> set rs"
      and l2: "login (foldl (step fmt) s1 rs) k2 n' p' = Inr (usr', t2, s2)"
      and same: "user_id usr' = user_id usr"
    let ?s = "foldl (step fmt) s1 rs"
    from l1 obtain v where v: "AuthTokenSerializer_is_valid s n p = Inr v"
      by (cases "AuthTokenSerializer_is_valid s n p") (auto simp: login_def)
    with l1 have r1: "usr = v" "get_or_create s (user_id v) k1 = (t1, s1)"
      by (auto simp: login_def split: prod.splits)
    from get_or_create_result[of s "user_id v" k1] r1
    have tok1: "map_of (tokens s1) (user_id usr) = Some t1"
      by simp
    from steps_token[OF tok1 no] have tok: "map_of (tokens ?s) (user_id usr) = Some t1" .
    from l2 obtain w where w: "AuthTokenSerializer_is_valid ?s n' p' = Inr w"
      by (cases "AuthTokenSerializer_is_valid ?s n' p'") (auto simp: login_def)
    with l2 have r2: "usr' = w" "get_or_create ?s (user_id w) k2 = (t2, s2)"
      by (auto simp: login_def split: prod.splits)
    from get_or_create_existing[OF tok, of k2] r2 same
    show "t2 = t1 \<and> s2 = foldl (step fmt) s1 rs"
      by simp
  qed
  from a b c show ?thesis by (intro conjI)
qed

theorem issue_token_idempotent_witness:
  "map_of (tokens ex_db) 1 = Some ''k1'' \<and> get_or_create ex_db 1 ''other'' = (''k1'', ex_db) \<and>
   Logout (AuthUser 2) \<notin> set ex_requests \<and> DeleteUser 2 \<notin> set ex_requests \<and>
   fst (get_or_create ex_db 2 ''k2'') = ''k2'' \<and>
   get_or_create (foldl (step has_at) (snd (get_or_create ex_db 2 ''k2'')) ex_requests) 2 ''k3''
     = (fst (get_or_create ex_db 2 ''k2''),
        foldl (step has_at) (snd (get_or_create ex_db 2 ''k2'')) ex_requests) \<and>
   login ex_auth_db ''k1'' ''alice'' ''secret123'' = Inr (ex_alice, ''k1'', ex_auth_db1) \<and>
   login ex_auth_db1 ''k2'' ''alice'' ''secret123'' = Inr (ex_alice, ''k1'', ex_auth_db1)"
proof -
  have h1: "map_of (tokens ex_db) 1 = Some ''k1''"
    by (simp add: ex_db_def)
  have h2: "Logout (AuthUser 2) \<notin> set ex_requests" "DeleteUser 2 \<notin> set ex_requests"
    by (simp_all add: ex_requests_def)
  have h3: "fst (get_or_create ex_db 2 ''k2'') = ''k2''"
    by (simp add: get_or_create_def ex_db_def)
  from issue_token_idempotent[where s = ex_db and u = 1 and k = "''k1''" and ?k1.0 = "''other''"] h1
  have a: "get_or_create ex_db 1 ''other'' = (''k1'', ex_db)"
    by blast
  from issue_token_idempotent[where s = ex_db and u = 2 and ?k1.0 = "''k2''" and ?k2.0 = "''k3''"
      and rs = ex_requests and fmt = has_at] h2
  have b: "get_or_create (foldl (step has_at) (snd (get_or_create ex_db 2 ''k2'')) ex_requests) 2 ''k3''
     = (fst (get_or_create ex_db 2 ''k2''),
        foldl (step has_at) (snd (get_or_create ex_db 2 ''k2'')) ex_requests)"
    by blast
  from h1 a h2 h3 b login_alice show ?thesis
    by (intro conjI)
qed

section \<open>Registration\<close>

text \<open>
  C2. With a user registered under \<open>alice@x.com\<close>, a second registration under
  \<open>Alice@x.com\<close> is accepted: \<open>validate_email\<close> compares the address as typed with the
  stored, lower-cased addresses, and the new user is stored with the same address
  \<open>alice@x.com\<close>.
\<close>

theorem second_registration_in_other_case_accepted:
  "register has_at empty_db ''k1'' reg_alice = Inr (ex_alice, ''k1'', ex_auth_db1) \<and>
   reg_email reg_alice2 = ''Alice@x.com'' \<and> email ex_alice = ''alice@x.com'' \<and>
   lower (reg_email reg_alice2) = lower (email ex_alice) \<and>
   validate_email ex_auth_db1 ''Alice@x.com'' = Inr ''alice@x.com'' \<and>
   register has_at ex_auth_db1 ''k2'' reg_alice2 = Inr (ex_alice2, ''k2'', ex_auth_db2) \<and>
   email ex_alice2 = email ex_alice \<and> users ex_auth_db2 = [ex_alice, ex_alice2]"
proof -
  have a: "reg_email reg_alice2 = ''Alice@x.com''" "email ex_alice = ''alice@x.com''"
    "email ex_alice2 = email ex_alice" "users ex_auth_db2 = [ex_alice, ex_alice2]"
    by (simp_all add: reg_alice2_def ex_alice_def ex_alice2_def ex_auth_db2_def)
  have b: "lower (reg_email reg_alice2) = lower (email ex_alice)"
    by (simp add: a lower_lowercase_examples)
  have c: "validate_email ex_auth_db1 ''Alice@x.com'' = Inr ''alice@x.com''"
    by (simp add: validate_email_def ex_auth_db1_def ex_auth_db_def ex_alice_def
          lower_lowercase_examples)
  have d: "register has_at ex_auth_db1 ''k2'' reg_alice2 = Inr (ex_alice2, ''k2'', ex_auth_db2)"
    by (simp add: auth_eval lower_lowercase_examples)
  from register_alice a b c d show ?thesis by simp
qed

text \<open>
  C3. The username \<open>bob_@home\<close> contains \<open>@\<close>, which is neither a letter, a digit nor an
  underscore, and \<open>validate_username\<close> accepts it, as it accepts every username that
  contains an underscore; the registration succeeds and the user is stored.
\<close>

theorem username_with_other_character_accepted:
  "\<not> list_all (\<lambda>c. isalnum_char c \<or> c = CHR ''_'') ''bob_@home'' \<and>
   validate_username ''bob_@home'' = Inr ''bob_@home'' \<and>
   register has_at empty_db ''k1'' reg_bob = Inr (ex_bob, ''k1'', ex_bob_db) \<and>
   username ex_bob = ''bob_@home'' \<and> users ex_bob_db = [ex_bob]"
proof -
  have a: "\<not> list_all (\<lambda>c. isalnum_char c \<or> c = CHR ''_'') ''bob_@home''"
    by (simp add: isalnum_char_def)
  have b: "validate_username ''bob_@home'' = Inr ''bob_@home''"
    by (rule validate_username_underscore) simp
  have c: "register has_at empty_db ''k1'' reg_bob = Inr (ex_bob, ''k1'', ex_bob_db)"
    by (simp add: auth_eval lower_lowercase_examples)
  have d: "username ex_bob = ''bob_@home''" "users ex_bob_db = [ex_bob]"
    by (simp_all add: ex_bob_def ex_bob_db_def)
  from a b c d show ?thesis by simp
qed

end
